theory Spec2Isabelle
  imports Main "HOL-Library.Sublist"
begin

section \<open>Python values, strings and paths\<close>

text \<open>
  The program is \<^verbatim>\<open>tasks.py\<close>: a robot that reads orders from a CSV table, fills a web
  form per order, stores a receipt and a screenshot, and archives the receipts. All of its
  effects are calls into libraries (browser, HTTP, tables, PDF, archive). The model keeps the
  control flow of every function of the file and records each library call in a log; what a
  call returns or raises is decided by a \<open>world\<close>, over which every theorem quantifies.

  Python does not enforce the annotations of the dataclass \<^verbatim>\<open>Order\<close>
  (\<^verbatim>\<open>int, str, str, str, str\<close>): a field holds the cell the table reader delivered. A
  cell is therefore a Python value: an integer, a string or \<^verbatim>\<open>None\<close>.
\<close>

datatype pyval = PyNone | PyInt int | PyStr string

text \<open>Truth value of a value in \<^verbatim>\<open>if head:\<close>.\<close>

fun truthy :: "pyval \<Rightarrow> bool" where
  "truthy PyNone = False"
| "truthy (PyInt i) = (i \<noteq> 0)"
| "truthy (PyStr s) = (s \<noteq> [])"

definition digit_char :: "nat \<Rightarrow> char" where
  "digit_char d =
     (if d = 0 then CHR ''0'' else if d = 1 then CHR ''1'' else if d = 2 then CHR ''2''
      else if d = 3 then CHR ''3'' else if d = 4 then CHR ''4'' else if d = 5 then CHR ''5''
      else if d = 6 then CHR ''6'' else if d = 7 then CHR ''7'' else if d = 8 then CHR ''8''
      else CHR ''9'')"

fun digits :: "nat \<Rightarrow> string" where
  "digits n = (if n < 10 then [digit_char n] else digits (n div 10) @ [digit_char (n mod 10)])"

declare digits.simps [simp del]

text \<open>\<^verbatim>\<open>str(i)\<close> of an integer: decimal, with a minus sign.\<close>

definition str_int :: "int \<Rightarrow> string" where
  "str_int i = (if i < 0 then CHR ''-'' # digits (nat (- i)) else digits (nat i))"

text \<open>What an f-string puts in place of \<^verbatim>\<open>{v}\<close>.\<close>

fun py_str :: "pyval \<Rightarrow> string" where
  "py_str PyNone = ''None''"
| "py_str (PyInt i) = str_int i"
| "py_str (PyStr s) = s"

text \<open>
  An exception is its class name and its text \<^verbatim>\<open>str(e)\<close>. Every exception of the model
  is an \<^verbatim>\<open>Exception\<close> (what \<^verbatim>\<open>except Exception\<close> catches); an interrupt of the
  process is not modelled.
\<close>

datatype exn = Exn (exn_class: string) (exn_str: string)

text \<open>
  A path, as pathlib keeps it: its anchor (none for a relative path, \<^verbatim>\<open>/\<close>, or the
  \<^verbatim>\<open>//\<close> that POSIX leaves to the implementation) and its parts. Parsing a text splits it
  at the slashes and drops the empty parts and the parts \<^verbatim>\<open>.\<close>, so
  \<^verbatim>\<open>a//b\<close> and \<^verbatim>\<open>a/./b\<close> are the path \<^verbatim>\<open>a/b\<close>; a part \<^verbatim>\<open>..\<close> is kept.
\<close>

datatype anchor = NoAnchor | Slash | TwoSlashes

datatype path = Path (anchor: anchor) (parts: "string list")

fun split_slash :: "string \<Rightarrow> string list" where
  "split_slash [] = [[]]"
| "split_slash (c # cs) =
     (if c = CHR ''/'' then [] # split_slash cs
      else (case split_slash cs of x # xs \<Rightarrow> (c # x) # xs | [] \<Rightarrow> [[c]]))"

text \<open>The root of a text: none unless it starts with a slash; \<^verbatim>\<open>//\<close> when it starts with
  exactly two.\<close>

definition anchor_of :: "string \<Rightarrow> anchor" where
  "anchor_of s =
     (if take 1 s \<noteq> ''/'' then NoAnchor
      else if take 1 (drop 1 s) \<noteq> ''/'' \<or> take 1 (drop 2 s) = ''/'' then Slash
      else TwoSlashes)"

definition parse_parts :: "string \<Rightarrow> string list" where
  "parse_parts s = filter (\<lambda>x. x \<noteq> [] \<and> x \<noteq> ''.'') (split_slash s)"

text \<open>\<^verbatim>\<open>Path(s)\<close>.\<close>

definition Path_of :: "string \<Rightarrow> path" where
  "Path_of s = Path (anchor_of s) (parse_parts s)"

definition is_absolute :: "path \<Rightarrow> bool" where
  "is_absolute p = (anchor p \<noteq> NoAnchor)"

text \<open>\<^verbatim>\<open>p.joinpath(seg)\<close>: an absolute segment replaces the path, a relative one adds its
  parts.\<close>

definition joinpath :: "path \<Rightarrow> string \<Rightarrow> path" where
  "joinpath p seg =
     (if anchor_of seg \<noteq> NoAnchor then Path_of seg
      else Path (anchor p) (parts p @ parse_parts seg))"

text \<open>
  \<^verbatim>\<open>p.absolute()\<close>, for the text \<open>cwd\<close> of the working directory: an absolute path is
  itself, a relative one gets the parts of the working directory in front. The working
  directory is parsed like any other path text, so \<^verbatim>\<open>/\<close> has no parts and a doubled slash
  or a part \<^verbatim>\<open>.\<close> in it is dropped. \<^verbatim>\<open>os.getcwd()\<close> gives an absolute path; a text
  with no leading slash, which it never gives, is read from the root \<^verbatim>\<open>/\<close>.
\<close>

definition absolute :: "string \<Rightarrow> path \<Rightarrow> path" where
  "absolute cwd p =
     (if is_absolute p then p
      else Path (case anchor_of cwd of NoAnchor \<Rightarrow> Slash | a \<Rightarrow> a)
             (parse_parts cwd @ parts p))"

fun join_slash :: "string list \<Rightarrow> string" where
  "join_slash [] = []"
| "join_slash [x] = x"
| "join_slash (x # y # ys) = x @ ''/'' @ join_slash (y # ys)"

text \<open>\<^verbatim>\<open>str(p)\<close>.\<close>

definition path_str :: "path \<Rightarrow> string" where
  "path_str p =
     (case anchor p of
        NoAnchor \<Rightarrow> (if parts p = [] then ''.'' else join_slash (parts p))
      | Slash \<Rightarrow> ''/'' @ join_slash (parts p)
      | TwoSlashes \<Rightarrow> ''//'' @ join_slash (parts p))"

section \<open>Data model\<close>

record Order =
  order_number :: pyval
  head :: pyval
  body :: pyval
  legs :: pyval
  address :: pyval

record Config =
  robot_order_website_url :: string
  orders_file_url :: string
  orders_file_name :: string
  output_dir :: path

text \<open>\<^verbatim>\<open>Config()\<close>: every field at its default.\<close>

definition Config_new :: Config where
  "Config_new =
     \<lparr>robot_order_website_url = ''https://robotsparebinindustries.com/#robot-order'',
      orders_file_url = ''https://robotsparebinindustries.com/orders.csv'',
      orders_file_name = ''orders.csv'',
      output_dir = Path_of ''output''\<rparr>"

text \<open>
  The table the reader returns: its column names and its data rows. Iterating over it yields
  one dictionary per row, whose keys are the column names; a row gives the cell of each column.
\<close>

record table =
  columns :: "string list"
  rows :: "(string \<Rightarrow> pyval) list"

section \<open>Library calls, the world and the state\<close>

text \<open>
  One constructor per library function the program calls, with the arguments the program
  passes. A timeout is in milliseconds; \<open>None\<close> is a call that passes no timeout.
\<close>

datatype call =
    HttpDownload string string bool
  | ReadTableFromCsv string
  | Goto string
  | Click string "nat option"
  | SelectOption string pyval
  | Fill string pyval
  | WaitForSelector string string nat
  | InnerHtml string
  | Screenshot path
  | HtmlToPdf string path
  | AddWatermarkImageToPdf path path path
  | ArchiveFolderWithZip string string

type_synonym log = "(call \<times> exn option) list"

text \<open>
  The world answers a call from the calls made so far: \<open>raises\<close> is the exception the call
  raises, if any; \<open>inner_html_of\<close> and \<open>table_of\<close> are what a call that returns a value
  returns; \<open>cwd\<close> is the text of the working directory (\<^verbatim>\<open>os.getcwd()\<close>).
\<close>

record world =
  raises :: "log \<Rightarrow> call \<Rightarrow> exn option"
  inner_html_of :: "log \<Rightarrow> string \<Rightarrow> string"
  table_of :: "log \<Rightarrow> string \<Rightarrow> table"
  cwd :: string

text \<open>
  The state of a run: the log of the calls made, each with its outcome, and the one
  \<^verbatim>\<open>Config\<close> object of the run. The parameter \<^verbatim>\<open>config\<close> of the source is a reference
  to that object (the dataclass is not frozen), so the model keeps the object in the state,
  where a write to it would show, and a function that takes \<^verbatim>\<open>config\<close> reads \<open>cfg\<close>.
\<close>

record state =
  calls :: log
  cfg :: Config

type_synonym 'a prog = "state \<Rightarrow> (exn + 'a) \<times> state"

definition return :: "'a \<Rightarrow> 'a prog" where
  "return x s = (Inr x, s)"

definition raise :: "exn \<Rightarrow> 'a prog" where
  "raise e s = (Inl e, s)"

text \<open>Sequencing: an exception of the first part skips the second.\<close>

definition bind :: "'a prog \<Rightarrow> ('a \<Rightarrow> 'b prog) \<Rightarrow> 'b prog" where
  "bind f g s = (case f s of (Inl e, s') \<Rightarrow> (Inl e, s') | (Inr x, s') \<Rightarrow> g x s')"

definition seq :: "unit prog \<Rightarrow> 'b prog \<Rightarrow> 'b prog" where
  "seq f g = bind f (\<lambda>_. g)"

text \<open>A library call: it is logged with its outcome, and raises what the world says.\<close>

definition perform :: "world \<Rightarrow> call \<Rightarrow> unit prog" where
  "perform w c s =
     (case raises w (calls s) c of
        None \<Rightarrow> (Inr (), s\<lparr>calls := calls s @ [(c, None)]\<rparr>)
      | Some e \<Rightarrow> (Inl e, s\<lparr>calls := calls s @ [(c, Some e)]\<rparr>))"

text \<open>\<^verbatim>\<open>try: f except Exception as e: h(e)\<close>.\<close>

definition try_except :: "'a prog \<Rightarrow> (exn \<Rightarrow> 'a prog) \<Rightarrow> 'a prog" where
  "try_except f h s = (case f s of (Inl e, s') \<Rightarrow> h e s' | (Inr x, s') \<Rightarrow> (Inr x, s'))"

text \<open>Reading the variable \<^verbatim>\<open>config\<close> at a point of the program.\<close>

definition with_config :: "(Config \<Rightarrow> 'a prog) \<Rightarrow> 'a prog" where
  "with_config f s = f (cfg s) s"

text \<open>\<^verbatim>\<open>config = Config()\<close>.\<close>

definition new_config :: "unit prog" where
  "new_config s = (Inr (), s\<lparr>cfg := Config_new\<rparr>)"

section \<open>The functions of tasks.py\<close>

text \<open>
  Constructing a library object (\<^verbatim>\<open>HTTP()\<close>, \<^verbatim>\<open>Tables()\<close>, \<^verbatim>\<open>PDF()\<close>,
  \<^verbatim>\<open>Archive()\<close>) and fetching the page (\<^verbatim>\<open>browser.page()\<close>) are part of the call
  made on the object.
\<close>

definition embed_screenshot_to_receipt :: "world \<Rightarrow> path \<Rightarrow> path \<Rightarrow> unit prog" where
  "embed_screenshot_to_receipt w screenshot_file pdf_file =
     perform w (AddWatermarkImageToPdf screenshot_file pdf_file pdf_file)"

definition archive_receipts :: "world \<Rightarrow> unit prog" where
  "archive_receipts w =
     with_config (\<lambda>config.
       perform w (ArchiveFolderWithZip
         (path_str (absolute (cwd w) (joinpath (output_dir config) ''receipts'')))
         (path_str (absolute (cwd w) (joinpath (output_dir config) ''receipts.zip'')))))"

text \<open>
  \<^verbatim>\<open>await_robot_preview(head, body, legs, timeout=5000)\<close>: the container first, then
  each part that is provided. The parameters are primed here, the plain names being the
  fields of an order.
\<close>

definition default_timeout :: nat where
  "default_timeout = 5000"

definition head_selector :: "pyval \<Rightarrow> string" where
  "head_selector head' = ''#robot-preview-image img[src='/heads/'' @ py_str head' @ ''.png']''"

definition body_selector :: "pyval \<Rightarrow> string" where
  "body_selector body' = ''#robot-preview-image img[src='/bodies/'' @ py_str body' @ ''.png']''"

definition legs_selector :: "pyval \<Rightarrow> string" where
  "legs_selector legs' = ''#robot-preview-image img[src='/legs/'' @ py_str legs' @ ''.png']''"

definition await_robot_preview :: "world \<Rightarrow> pyval \<Rightarrow> pyval \<Rightarrow> pyval \<Rightarrow> nat \<Rightarrow> unit prog" where
  "await_robot_preview w head' body' legs' timeout =
     seq (perform w (WaitForSelector ''#robot-preview-image'' ''visible'' timeout))
    (seq (if truthy head'
          then perform w (WaitForSelector (head_selector head') ''visible'' timeout)
          else return ())
    (seq (if truthy body'
          then perform w (WaitForSelector (body_selector body') ''visible'' timeout)
          else return ())
         (if truthy legs'
          then perform w (WaitForSelector (legs_selector legs') ''visible'' timeout)
          else return ())))"

definition screenshot_path :: "world \<Rightarrow> Config \<Rightarrow> Order \<Rightarrow> path" where
  "screenshot_path w config order =
     absolute (cwd w)
       (joinpath (joinpath (output_dir config) ''screenshots'')
          (''robot-'' @ py_str (order_number order) @ ''.png''))"

definition screenshot_robot :: "world \<Rightarrow> Order \<Rightarrow> path prog" where
  "screenshot_robot w order =
     with_config (\<lambda>config.
       let full_path = screenshot_path w config order in
       seq (await_robot_preview w (head order) (body order) (legs order) default_timeout)
      (seq (perform w (Screenshot full_path))
           (return full_path)))"

definition inner_html :: "world \<Rightarrow> string \<Rightarrow> string prog" where
  "inner_html w selector s =
     bind (perform w (InnerHtml selector)) (\<lambda>_. return (inner_html_of w (calls s) selector)) s"

definition receipt_path :: "world \<Rightarrow> Config \<Rightarrow> Order \<Rightarrow> path" where
  "receipt_path w config order =
     absolute (cwd w)
       (joinpath (joinpath (output_dir config) ''receipts'')
          (''receipt-'' @ py_str (order_number order) @ ''.pdf''))"

definition store_receipt_as_pdf :: "world \<Rightarrow> Order \<Rightarrow> unit prog" where
  "store_receipt_as_pdf w order =
     bind (screenshot_robot w order) (\<lambda>screenshot_file.
     bind (inner_html w ''#receipt'') (\<lambda>receipt_html.
     with_config (\<lambda>config.
       let receipt_file = receipt_path w config order in
       seq (perform w (HtmlToPdf receipt_html receipt_file))
           (embed_screenshot_to_receipt w screenshot_file receipt_file))))"

definition fill_order_form :: "world \<Rightarrow> Order \<Rightarrow> unit prog" where
  "fill_order_form w order =
     seq (perform w (SelectOption ''#head'' (head order)))
    (seq (perform w (Click (''#id-body-'' @ py_str (body order)) None))
    (seq (perform w (Fill ''input.form-control[type='number']'' (legs order)))
         (perform w (Fill ''#address'' (address order)))))"

definition click_order :: "world \<Rightarrow> unit prog" where
  "click_order w = perform w (Click ''button:text('Order')'' (Some 1000))"

definition wait_for_receipt :: "world \<Rightarrow> unit prog" where
  "wait_for_receipt w = perform w (WaitForSelector ''#receipt'' ''visible'' 1000)"

definition max_retries :: int where
  "max_retries = 3"

text \<open>
  The loop \<^verbatim>\<open>while not success\<close> of \<^verbatim>\<open>submit_order\<close>, entered with the exception
  \<open>e\<close> of the first attempt. Its termination is proved: the function is total.
\<close>

function retry_loop :: "world \<Rightarrow> exn \<Rightarrow> bool \<Rightarrow> int \<Rightarrow> state \<Rightarrow> (exn + unit) \<times> state" where
  "retry_loop w e success retry_count s =
     (if \<not> success then
        (if retry_count + 1 \<le> max_retries then
           (case seq (click_order w) (wait_for_receipt w) s of
              (Inr _, s') \<Rightarrow> retry_loop w e True (retry_count + 1) s'
            | (Inl _, s') \<Rightarrow> retry_loop w e success (retry_count + 1) s')
         else
           raise (Exn ''Exception''
                    (''Failed to return to order form after '' @ str_int max_retries
                       @ '' attempts: '' @ exn_str e)) s)
      else return () s)"
  by pat_completeness auto
termination
  by (relation "measure (\<lambda>(w, e, success, retry_count, s).
        if success then 0 else nat (max_retries + 2 - retry_count))")
     (auto simp: max_retries_def)

declare retry_loop.simps [simp del]

definition submit_order :: "world \<Rightarrow> unit prog" where
  "submit_order w =
     try_except (seq (click_order w) (wait_for_receipt w))
       (\<lambda>e. retry_loop w e False 0)"

definition go_back_to_order_form :: "world \<Rightarrow> unit prog" where
  "go_back_to_order_form w = perform w (Click ''button:text('Order another robot')'' (Some 1000))"

definition close_annoying_modal :: "world \<Rightarrow> unit prog" where
  "close_annoying_modal w = perform w (Click ''button:text('OK')'' None)"

primrec fill_and_submit_sales_form :: "world \<Rightarrow> Order list \<Rightarrow> unit prog" where
  "fill_and_submit_sales_form w [] = return ()"
| "fill_and_submit_sales_form w (order # orders) =
     seq (fill_order_form w order)
    (seq (submit_order w)
    (seq (store_receipt_as_pdf w order)
    (seq (go_back_to_order_form w)
    (seq (close_annoying_modal w)
         (fill_and_submit_sales_form w orders)))))"

definition open_robot_order_website :: "world \<Rightarrow> unit prog" where
  "open_robot_order_website w =
     with_config (\<lambda>config. perform w (Goto (robot_order_website_url config)))"

text \<open>
  \<^verbatim>\<open>order["Head"]\<close> on the dictionary of a row: a \<^verbatim>\<open>KeyError\<close> when the table has no
  such column.
\<close>

definition getitem :: "table \<Rightarrow> (string \<Rightarrow> pyval) \<Rightarrow> string \<Rightarrow> exn + pyval" where
  "getitem t r k =
     (if k \<in> set (columns t) then Inr (r k)
      else Inl (Exn ''KeyError'' (CHR 0x27 # k @ [CHR 0x27])))"

definition make_order :: "table \<Rightarrow> (string \<Rightarrow> pyval) \<Rightarrow> exn + Order" where
  "make_order t r =
     (case getitem t r ''Order number'' of Inl e \<Rightarrow> Inl e | Inr n \<Rightarrow>
     (case getitem t r ''Head'' of Inl e \<Rightarrow> Inl e | Inr h \<Rightarrow>
     (case getitem t r ''Body'' of Inl e \<Rightarrow> Inl e | Inr b \<Rightarrow>
     (case getitem t r ''Legs'' of Inl e \<Rightarrow> Inl e | Inr l \<Rightarrow>
     (case getitem t r ''Address'' of Inl e \<Rightarrow> Inl e | Inr a \<Rightarrow>
        Inr \<lparr>order_number = n, head = h, body = b, legs = l, address = a\<rparr>)))))"

text \<open>The list comprehension of \<^verbatim>\<open>get_orders\<close>: row after row, the first exception ends it.\<close>

fun orders_of_rows :: "table \<Rightarrow> (string \<Rightarrow> pyval) list \<Rightarrow> exn + Order list" where
  "orders_of_rows t [] = Inr []"
| "orders_of_rows t (r # rs) =
     (case make_order t r of
        Inl e \<Rightarrow> Inl e
      | Inr order \<Rightarrow>
          (case orders_of_rows t rs of Inl e \<Rightarrow> Inl e | Inr orders \<Rightarrow> Inr (order # orders)))"

definition read_table_from_csv :: "world \<Rightarrow> string \<Rightarrow> table prog" where
  "read_table_from_csv w file_name s =
     bind (perform w (ReadTableFromCsv file_name))
       (\<lambda>_. return (table_of w (calls s) file_name)) s"

definition get_orders :: "world \<Rightarrow> Order list prog" where
  "get_orders w =
     with_config (\<lambda>config.
       bind (read_table_from_csv w (orders_file_name config)) (\<lambda>t.
         case orders_of_rows t (rows t) of Inl e \<Rightarrow> raise e | Inr orders \<Rightarrow> return orders))"

definition download_file :: "world \<Rightarrow> string \<Rightarrow> string \<Rightarrow> unit prog" where
  "download_file w url file_name = perform w (HttpDownload url file_name True)"

definition order_robots_from_RobotSpareBin :: "world \<Rightarrow> unit prog" where
  "order_robots_from_RobotSpareBin w =
     seq new_config
    (seq (with_config (\<lambda>config.
            download_file w (orders_file_url config) (orders_file_name config)))
    (bind (get_orders w) (\<lambda>orders.
     seq (open_robot_order_website w)
    (seq (close_annoying_modal w)
    (seq (fill_and_submit_sales_form w orders)
         (archive_receipts w))))))"

section \<open>Notions used in the statements and proofs\<close>

text \<open>The calls a run added to the log: what the log of \<open>s'\<close> has after that of \<open>s\<close>.\<close>

definition new_calls :: "state \<Rightarrow> state \<Rightarrow> log" where
  "new_calls s s' = drop (length (calls s)) (calls s')"

text \<open>
  One submit attempt, as \<^verbatim>\<open>submit_order\<close> makes it in its \<^verbatim>\<open>try\<close> blocks:
  \<^verbatim>\<open>click_order(); wait_for_receipt()\<close>.
\<close>

definition click_and_wait :: "world \<Rightarrow> unit prog" where
  "click_and_wait w = seq (click_order w) (wait_for_receipt w)"

definition attempt_fails :: "world \<Rightarrow> state \<Rightarrow> bool" where
  "attempt_fails w s = (case fst (click_and_wait w s) of Inl _ \<Rightarrow> True | Inr _ \<Rightarrow> False)"

text \<open>The state after \<open>n\<close> attempts in a row.\<close>

primrec after_attempts :: "world \<Rightarrow> nat \<Rightarrow> state \<Rightarrow> state" where
  "after_attempts w 0 s = s"
| "after_attempts w (Suc n) s = after_attempts w n (snd (click_and_wait w s))"

text \<open>The first \<open>k\<close> attempts made from \<open>s\<close> all fail.\<close>

primrec fails_first :: "world \<Rightarrow> nat \<Rightarrow> state \<Rightarrow> bool" where
  "fails_first w 0 s = True"
| "fails_first w (Suc k) s = (attempt_fails w s \<and> fails_first w k (snd (click_and_wait w s)))"

definition order_click :: call where
  "order_click = Click ''button:text('Order')'' (Some 1000)"

definition receipt_wait :: call where
  "receipt_wait = WaitForSelector ''#receipt'' ''visible'' 1000"

text \<open>Making the calls of a list one after the other, up to the first that raises.\<close>

primrec perform_all :: "world \<Rightarrow> call list \<Rightarrow> unit prog" where
  "perform_all w [] = return ()"
| "perform_all w (c # cs) = seq (perform w c) (perform_all w cs)"

text \<open>The waits of \<^verbatim>\<open>await_robot_preview\<close>, in the order of its statements.\<close>

definition preview_calls :: "pyval \<Rightarrow> pyval \<Rightarrow> pyval \<Rightarrow> nat \<Rightarrow> call list" where
  "preview_calls head' body' legs' timeout =
     WaitForSelector ''#robot-preview-image'' ''visible'' timeout
     # (if truthy head' then [WaitForSelector (head_selector head') ''visible'' timeout] else [])
     @ (if truthy body' then [WaitForSelector (body_selector body') ''visible'' timeout] else [])
     @ (if truthy legs' then [WaitForSelector (legs_selector legs') ''visible'' timeout] else [])"

definition fill_calls :: "Order \<Rightarrow> call list" where
  "fill_calls order =
     [SelectOption ''#head'' (head order),
      Click (''#id-body-'' @ py_str (body order)) None,
      Fill ''input.form-control[type='number']'' (legs order),
      Fill ''#address'' (address order)]"

text \<open>The calls of the capture step \<^verbatim>\<open>store_receipt_as_pdf\<close>, in the order it makes them.\<close>

definition capture_calls :: "world \<Rightarrow> Config \<Rightarrow> Order \<Rightarrow> string \<Rightarrow> call list" where
  "capture_calls w config order html =
     preview_calls (head order) (body order) (legs order) default_timeout
     @ [Screenshot (screenshot_path w config order),
        InnerHtml ''#receipt'',
        HtmlToPdf html (receipt_path w config order),
        AddWatermarkImageToPdf (screenshot_path w config order)
          (receipt_path w config order) (receipt_path w config order)]"

text \<open>The receipt HTML a capture that gets that far reads: the world's answer after the waits
  and the screenshot.\<close>

definition capture_html :: "world \<Rightarrow> state \<Rightarrow> Order \<Rightarrow> string" where
  "capture_html w s order =
     inner_html_of w
       (calls s @ map (\<lambda>c. (c, None))
          (preview_calls (head order) (body order) (legs order) default_timeout
           @ [Screenshot (screenshot_path w (cfg s) order)]))
       ''#receipt''"

text \<open>The order of the capture step in the words of the specification: extract the receipt
  HTML, render the PDF, wait for the preview, take the screenshot, embed it.\<close>

definition spec_capture_calls :: "world \<Rightarrow> Config \<Rightarrow> Order \<Rightarrow> string \<Rightarrow> call list" where
  "spec_capture_calls w config order html =
     [InnerHtml ''#receipt'',
      HtmlToPdf html (receipt_path w config order)]
     @ preview_calls (head order) (body order) (legs order) default_timeout
     @ [Screenshot (screenshot_path w config order),
        AddWatermarkImageToPdf (screenshot_path w config order)
          (receipt_path w config order) (receipt_path w config order)]"

text \<open>The files a log shows as written: the targets of the calls that returned.\<close>

fun pdf_of :: "call \<times> exn option \<Rightarrow> path list" where
  "pdf_of (HtmlToPdf html p, None) = [p]"
| "pdf_of _ = []"

fun screenshot_of :: "call \<times> exn option \<Rightarrow> path list" where
  "screenshot_of (Screenshot p, None) = [p]"
| "screenshot_of _ = []"

definition pdfs_written :: "log \<Rightarrow> path list" where
  "pdfs_written l = concat (map pdf_of l)"

definition screenshots_taken :: "log \<Rightarrow> path list" where
  "screenshots_taken l = concat (map screenshot_of l)"

text \<open>A call that touches a screenshot or a receipt file, whatever its outcome.\<close>

fun file_call :: "call \<Rightarrow> bool" where
  "file_call (Screenshot p) = True"
| "file_call (HtmlToPdf html p) = True"
| "file_call (AddWatermarkImageToPdf i p q) = True"
| "file_call _ = False"

text \<open>The two calls of a submit attempt.\<close>

definition submit_call :: "call \<Rightarrow> bool" where
  "submit_call c = (c = order_click \<or> c = receipt_wait)"

text \<open>
  A program keeps to the rules of the workflow when it leaves the \<^verbatim>\<open>Config\<close> object as
  it is, only adds to the log, and a call of it that raises, other than a call of a submit
  attempt, is its last call and gives its exception.
\<close>

definition orderly :: "'a prog \<Rightarrow> bool" where
  "orderly f =
     (\<forall>s. cfg (snd (f s)) = cfg s \<and>
        (\<exists>new. calls (snd (f s)) = calls s @ new \<and>
           (\<forall>xs c e ys. new = xs @ (c, Some e) # ys \<and> \<not> submit_call c
              \<longrightarrow> ys = [] \<and> fst (f s) = Inl e)))"

text \<open>Concrete worlds, orders and states, for evaluating the program.\<close>

definition world_ok :: world where
  "world_ok =
     \<lparr>raises = (\<lambda>l c. None),
      inner_html_of = (\<lambda>l sel. ''<p>receipt</p>''),
      table_of = (\<lambda>l f. \<lparr>columns = [], rows = []\<rparr>),
      cwd = ''/robot''\<rparr>"

definition state0 :: state where
  "state0 = \<lparr>calls = [], cfg = Config_new\<rparr>"

definition order1 :: Order where
  "order1 = \<lparr>order_number = PyInt 1, head = PyStr ''1'', body = PyStr ''2'',
             legs = PyStr ''3'', address = PyStr ''Main St 1''\<rparr>"

text \<open>The exception \<^verbatim>\<open>submit_order\<close> raises when its retries are used up, for the
  exception \<open>e\<close> of the first attempt.\<close>

definition exhausted :: "exn \<Rightarrow> exn" where
  "exhausted e = Exn ''Exception'' (''Failed to return to order form after 3 attempts: '' @ exn_str e)"

text \<open>What one attempt made from \<open>s\<close> adds to the log: the click and, when the click
  returned, the wait.\<close>

definition attempt_calls :: "world \<Rightarrow> state \<Rightarrow> log" where
  "attempt_calls w s =
     (case raises w (calls s) order_click of
        Some e \<Rightarrow> [(order_click, Some e)]
      | None \<Rightarrow> [(order_click, None),
                  (receipt_wait, raises w (calls s @ [(order_click, None)]) receipt_wait)])"

text \<open>A world whose orders file has two rows and in which the calls made at the given lengths
  of the log time out, and the state after the form was filled for \<open>order1\<close>.\<close>

definition timeout_exn :: exn where
  "timeout_exn = Exn ''TimeoutError'' ''Timeout 1000ms exceeded.''"

definition row_of :: "(string \<times> pyval) list \<Rightarrow> string \<Rightarrow> pyval" where
  "row_of cells k = (case map_of cells k of Some v \<Rightarrow> v | None \<Rightarrow> PyNone)"

definition two_rows :: table where
  "two_rows =
     \<lparr>columns = [''Order number'', ''Head'', ''Body'', ''Legs'', ''Address''],
      rows = [row_of [(''Order number'', PyStr ''1''), (''Head'', PyStr ''1''),
                      (''Body'', PyStr ''2''), (''Legs'', PyStr ''3''),
                      (''Address'', PyStr ''Main St 1'')],
              row_of [(''Order number'', PyStr ''2''), (''Head'', PyStr ''4''),
                      (''Body'', PyStr ''5''), (''Legs'', PyStr ''6''),
                      (''Address'', PyStr ''Side St 2'')]]\<rparr>"

definition world_fail_at :: "nat list \<Rightarrow> world" where
  "world_fail_at ns =
     \<lparr>raises = (\<lambda>l c. if length l \<in> set ns
                       then Some (Exn ''TimeoutError'' ''Timeout 1000ms exceeded.'') else None),
      inner_html_of = (\<lambda>l sel. ''<p>receipt</p>''),
      table_of = (\<lambda>l f. two_rows),
      cwd = ''/robot''\<rparr>"

definition state_filled :: state where
  "state_filled = \<lparr>calls = map (\<lambda>c. (c, None)) (fill_calls order1), cfg = Config_new\<rparr>"

text \<open>An order whose head is the empty string.\<close>

definition order_no_head :: Order where
  "order_no_head = \<lparr>order_number = PyInt 2, head = PyStr '''', body = PyStr ''2'',
             legs = PyStr ''3'', address = PyStr ''Main St 2''\<rparr>"

text \<open>The run after \<^verbatim>\<open>config = Config()\<close>.\<close>

definition after_config :: "world \<Rightarrow> unit prog" where
  "after_config w =
     seq (with_config (\<lambda>config.
            download_file w (orders_file_url config) (orders_file_name config)))
    (bind (get_orders w) (\<lambda>orders.
     seq (open_robot_order_website w)
    (seq (close_annoying_modal w)
    (seq (fill_and_submit_sales_form w orders)
         (archive_receipts w)))))"

text \<open>The columns \<^verbatim>\<open>get_orders\<close> reads, the order it makes of a row, and the
  \<^verbatim>\<open>KeyError\<close> of a missing column.\<close>

definition expected_columns :: "string list" where
  "expected_columns = [''Order number'', ''Head'', ''Body'', ''Legs'', ''Address'']"

definition order_of_row :: "(string \<Rightarrow> pyval) \<Rightarrow> Order" where
  "order_of_row r =
     \<lparr>order_number = r ''Order number'', head = r ''Head'', body = r ''Body'',
      legs = r ''Legs'', address = r ''Address''\<rparr>"

definition key_error :: "string \<Rightarrow> exn" where
  "key_error k = Exn ''KeyError'' (CHR 0x27 # k @ [CHR 0x27])"

text \<open>Worlds whose orders file lacks the column \<^verbatim>\<open>Address\<close>: one with no rows, one with
  one row.\<close>

definition world_header_only :: world where
  "world_header_only =
     \<lparr>raises = (\<lambda>l c. None),
      inner_html_of = (\<lambda>l sel. ''<p>receipt</p>''),
      table_of = (\<lambda>l f. \<lparr>columns = [''Order number'', ''Head'', ''Body'', ''Legs''], rows = []\<rparr>),
      cwd = ''/robot''\<rparr>"

definition world_no_address :: world where
  "world_no_address =
     \<lparr>raises = (\<lambda>l c. None),
      inner_html_of = (\<lambda>l sel. ''<p>receipt</p>''),
      table_of = (\<lambda>l f. \<lparr>columns = [''Order number'', ''Head'', ''Body'', ''Legs''],
                            rows = [row_of [(''Order number'', PyStr ''1''), (''Head'', PyStr ''1''),
                                            (''Body'', PyStr ''2''), (''Legs'', PyStr ''3'')]]\<rparr>),
      cwd = ''/robot''\<rparr>"

text \<open>The table the run reads: the world's answer after the download.\<close>

definition orders_table :: "world \<Rightarrow> state \<Rightarrow> table" where
  "orders_table w s0 =
     table_of w
       (calls s0 @ [(HttpDownload (orders_file_url Config_new) (orders_file_name Config_new) True,
                     None)])
       (orders_file_name Config_new)"

text \<open>A program that returns from every state.\<close>

definition succeeds :: "'a prog \<Rightarrow> bool" where
  "succeeds f = (\<forall>s. \<exists>x. fst (f s) = Inr x)"

text \<open>
  The log a list of calls leaves when they are made one after the other from a log \<open>l\<close>: each
  call with its outcome, up to and including the first that raises. The outcome of a log is the
  exception of its last call, if any.
\<close>

fun run_log :: "world \<Rightarrow> log \<Rightarrow> call list \<Rightarrow> log" where
  "run_log w l [] = []"
| "run_log w l (c # cs) =
     (case raises w l c of
        None \<Rightarrow> (c, None) # run_log w (l @ [(c, None)]) cs
      | Some e \<Rightarrow> [(c, Some e)])"

definition outcome_of :: "log \<Rightarrow> exn option" where
  "outcome_of l = (case l of [] \<Rightarrow> None | x # xs \<Rightarrow> snd (last l))"

text \<open>A world whose orders file has two rows with the same order number, and in which every
  call returns.\<close>

definition same_number_rows :: table where
  "same_number_rows =
     \<lparr>columns = [''Order number'', ''Head'', ''Body'', ''Legs'', ''Address''],
      rows = [row_of [(''Order number'', PyStr ''7''), (''Head'', PyStr ''1''),
                      (''Body'', PyStr ''2''), (''Legs'', PyStr ''3''),
                      (''Address'', PyStr ''Main St 1'')],
              row_of [(''Order number'', PyStr ''7''), (''Head'', PyStr ''4''),
                      (''Body'', PyStr ''5''), (''Legs'', PyStr ''6''),
                      (''Address'', PyStr ''Side St 2'')]]\<rparr>"

definition world_same_number :: world where
  "world_same_number =
     \<lparr>raises = (\<lambda>l c. None),
      inner_html_of = (\<lambda>l sel. ''<p>receipt</p>''),
      table_of = (\<lambda>l f. same_number_rows),
      cwd = ''/robot''\<rparr>"

text \<open>The root of the absolute output paths: that of the working directory, which
  \<^verbatim>\<open>Path.cwd()\<close> gives as an absolute path.\<close>

definition cwd_anchor :: "world \<Rightarrow> anchor" where
  "cwd_anchor w = (case anchor_of (cwd w) of NoAnchor \<Rightarrow> Slash | a \<Rightarrow> a)"

section \<open>Sequences of calls\<close>

lemma perform_fst: "fst (perform w c s) = (case raises w (calls s) c of None \<Rightarrow> Inr () | Some e \<Rightarrow> Inl e)"
  by (simp add: perform_def split: option.splits)

lemma perform_snd: "snd (perform w c s) = s\<lparr>calls := calls s @ [(c, raises w (calls s) c)]\<rparr>"
  by (simp add: perform_def split: option.splits)

lemma seq_Inl: "f s = (Inl e, s') \<Longrightarrow> seq f g s = (Inl e, s')"
  by (simp add: seq_def bind_def)

lemma seq_Inr: "f s = (Inr x, s') \<Longrightarrow> seq f g s = g s'"
  by (simp add: seq_def bind_def)

lemma bind_Inl: "f s = (Inl e, s') \<Longrightarrow> bind f g s = (Inl e, s')"
  by (simp add: bind_def)

lemma bind_Inr: "f s = (Inr x, s') \<Longrightarrow> bind f g s = g x s'"
  by (simp add: bind_def)

lemma seq_ok: "seq f g s = (Inr y, s') \<Longrightarrow> \<exists>s1. f s = (Inr (), s1) \<and> g s1 = (Inr y, s')"
  by (cases "f s") (auto simp: seq_def bind_def split: sum.splits)

lemma bind_ok: "bind f g s = (Inr y, s') \<Longrightarrow> \<exists>x s1. f s = (Inr x, s1) \<and> g x s1 = (Inr y, s')"
  by (cases "f s") (auto simp: bind_def split: sum.splits)

lemma perform_all_append:
  "perform_all w (xs @ ys) = seq (perform_all w xs) (perform_all w ys)"
proof (induction xs)
  case Nil
  show ?case by (rule ext) (simp add: seq_def bind_def return_def)
next
  case (Cons c xs)
  show ?case
    by (rule ext) (simp add: Cons seq_def bind_def split: prod.splits sum.splits)
qed

lemma perform_all_ok:
  "perform_all w cs s = (Inr u, s') \<Longrightarrow> s' = s\<lparr>calls := calls s @ map (\<lambda>c. (c, None)) cs\<rparr>"
proof (induction cs arbitrary: s)
  case Nil
  then show ?case by (simp add: return_def)
next
  case (Cons c cs)
  from Cons.prems obtain s1 where a: "perform w c s = (Inr (), s1)" and b: "perform_all w cs s1 = (Inr u, s')"
    using seq_ok by fastforce
  from a have s1: "s1 = s\<lparr>calls := calls s @ [(c, None)]\<rparr>"
    by (auto simp: perform_def split: option.splits)
  from Cons.IH[OF b] show ?case by (simp add: s1)
qed

text \<open>What a run of a call list adds to the log.\<close>

lemma perform_all_log:
  "\<exists>new. snd (perform_all w cs s) = s\<lparr>calls := calls s @ new\<rparr> \<and> prefix (map fst new) cs \<and>
     (\<forall>xs c e ys. new = xs @ (c, Some e) # ys \<longrightarrow> ys = [] \<and> fst (perform_all w cs s) = Inl e) \<and>
     (\<forall>e. fst (perform_all w cs s) = Inl e \<longrightarrow> (\<exists>xs c. new = xs @ [(c, Some e)]))"
proof (induction cs arbitrary: s)
  case Nil
  show ?case by (simp add: return_def)
next
  case (Cons c cs)
  show ?case
  proof (cases "raises w (calls s) c")
    case (Some e)
    then have r: "perform_all w (c # cs) s = (Inl e, s\<lparr>calls := calls s @ [(c, Some e)]\<rparr>)"
      by (simp add: seq_def bind_def perform_def)
    show ?thesis
      apply (rule exI[of _ "[(c, Some e)]"])
      apply (simp add: r del: perform_all.simps)
      apply (auto simp: append_eq_Cons_conv Cons_eq_append_conv)
      done
  next
    case None
    let ?s1 = "s\<lparr>calls := calls s @ [(c, None)]\<rparr>"
    from None have r: "perform_all w (c # cs) s = perform_all w cs ?s1"
      by (simp add: seq_def bind_def perform_def)
    from Cons.IH[of ?s1] obtain new where
      n: "snd (perform_all w cs ?s1) = ?s1\<lparr>calls := calls ?s1 @ new\<rparr>"
      and p: "prefix (map fst new) cs"
      and f: "\<forall>xs c e ys. new = xs @ (c, Some e) # ys \<longrightarrow> ys = [] \<and> fst (perform_all w cs ?s1) = Inl e"
      and g: "\<forall>e. fst (perform_all w cs ?s1) = Inl e \<longrightarrow> (\<exists>xs c. new = xs @ [(c, Some e)])"
      by blast
    show ?thesis
      apply (rule exI[of _ "(c, None) # new"])
      apply (simp add: r n p del: perform_all.simps)
      apply (intro conjI allI impI)
      subgoal for xs c' e ys using f by (cases xs) auto
      subgoal for xs c' e ys using f by (cases xs) auto
      subgoal for e using g by (metis append_Cons)
      done
  qed
qed

lemma click_and_wait_all: "click_and_wait w = perform_all w [order_click, receipt_wait]"
  by (rule ext) (simp add: click_and_wait_def click_order_def wait_for_receipt_def order_click_def
      receipt_wait_def seq_def bind_def return_def split: prod.splits sum.splits)

lemma fill_order_form_all: "fill_order_form w order = perform_all w (fill_calls order)"
  by (rule ext) (simp add: fill_order_form_def fill_calls_def seq_def bind_def return_def split: prod.splits sum.splits)

lemma seq_return: "seq f (return ()) = f"
  by (rule ext) (simp add: seq_def bind_def return_def split: prod.splits sum.splits)

lemma return_seq: "seq (return ()) g = g"
  by (rule ext) (simp add: seq_def bind_def return_def)

lemma seq_assoc: "seq (seq f g) h = seq f (seq g h)"
  by (rule ext) (simp add: seq_def bind_def split: prod.splits sum.splits)

lemma perform_all_single: "perform_all w [c] = perform w c"
  by (simp add: seq_return)

lemma await_robot_preview_all:
  "await_robot_preview w h b l t = perform_all w (preview_calls h b l t)"
  by (simp add: await_robot_preview_def preview_calls_def perform_all_append seq_return return_seq)

section \<open>The retry loop of submit_order\<close>

lemma str_int_3: "str_int 3 = ''3''"
  by (simp add: str_int_def digits.simps digit_char_def)

lemma retry_loop_True: "retry_loop w e True rc s = (Inr (), s)"
  by (simp add: retry_loop.simps return_def)

lemma retry_loop_False:
  "retry_loop w e False rc s =
     (if rc + 1 \<le> 3 then
        (case click_and_wait w s of
           (Inr _, s') \<Rightarrow> (Inr (), s')
         | (Inl _, s') \<Rightarrow> retry_loop w e False (rc + 1) s')
      else (Inl (exhausted e), s))"
  by (subst retry_loop.simps)
     (simp add: retry_loop_True max_retries_def click_and_wait_def raise_def str_int_3 exhausted_def
        split: prod.splits sum.splits)

lemma attempt_fails_D: "attempt_fails w s \<Longrightarrow> \<exists>e s1. click_and_wait w s = (Inl e, s1)"
  by (cases "click_and_wait w s") (auto simp: attempt_fails_def split: sum.splits)

lemma attempt_ok_D: "\<not> attempt_fails w s \<Longrightarrow> \<exists>s1. click_and_wait w s = (Inr (), s1)"
  by (cases "click_and_wait w s") (auto simp: attempt_fails_def split: sum.splits)

lemma retry_success:
  "fails_first w K s \<Longrightarrow> \<not> attempt_fails w (after_attempts w K s) \<Longrightarrow> rc + int K + 1 \<le> 3 \<Longrightarrow>
   retry_loop w e False rc s = (Inr (), after_attempts w (Suc K) s)"
proof (induction K arbitrary: rc s)
  case 0
  then obtain s1 where "click_and_wait w s = (Inr (), s1)"
    using attempt_ok_D by fastforce
  with 0 show ?case
    by (subst retry_loop_False) simp
next
  case (Suc K)
  from Suc.prems obtain e1 s1 where a: "click_and_wait w s = (Inl e1, s1)"
    using attempt_fails_D by fastforce
  have "retry_loop w e False (rc + 1) s1 = (Inr (), after_attempts w (Suc K) s1)"
    using Suc.prems a by (intro Suc.IH) auto
  with a Suc.prems show ?case
    by (subst retry_loop_False) simp
qed

lemma retry_exhaust:
  "fails_first w n s \<Longrightarrow> rc + int n = 3 \<Longrightarrow>
   retry_loop w e False rc s = (Inl (exhausted e), after_attempts w n s)"
proof (induction n arbitrary: rc s)
  case 0
  then show ?case by (subst retry_loop_False) simp
next
  case (Suc n)
  from Suc.prems obtain e1 s1 where a: "click_and_wait w s = (Inl e1, s1)"
    using attempt_fails_D by fastforce
  have "retry_loop w e False (rc + 1) s1 = (Inl (exhausted e), after_attempts w n s1)"
    using Suc.prems a by (intro Suc.IH) auto
  with a Suc.prems show ?case
    by (subst retry_loop_False) simp
qed

lemma submit_order_unfold:
  "submit_order w s =
     (case click_and_wait w s of
        (Inr _, s') \<Rightarrow> (Inr (), s')
      | (Inl e, s') \<Rightarrow> retry_loop w e False 0 s')"
  by (simp add: submit_order_def try_except_def click_and_wait_def split: prod.splits sum.splits)

lemma submit_order_success:
  assumes "K \<le> 3" "fails_first w K s" "\<not> attempt_fails w (after_attempts w K s)"
  shows "submit_order w s = (Inr (), after_attempts w (Suc K) s)"
proof (cases K)
  case 0
  with assms obtain s1 where "click_and_wait w s = (Inr (), s1)"
    using attempt_ok_D by fastforce
  then show ?thesis using 0 by (simp add: submit_order_unfold)
next
  case (Suc K')
  from assms Suc obtain e1 s1 where a: "click_and_wait w s = (Inl e1, s1)"
    using attempt_fails_D by fastforce
  have "retry_loop w e1 False 0 s1 = (Inr (), after_attempts w (Suc K') s1)"
    using assms Suc a by (intro retry_success) auto
  with a Suc show ?thesis by (simp add: submit_order_unfold)
qed

lemma submit_order_exhaust:
  assumes "fails_first w 4 s" "fst (click_and_wait w s) = Inl e"
  shows "submit_order w s = (Inl (exhausted e), after_attempts w 4 s)"
proof -
  from assms(2) obtain s1 where a: "click_and_wait w s = (Inl e, s1)"
    by (cases "click_and_wait w s") simp
  have f3: "fails_first w 3 s1" using assms(1) a by (simp add: eval_nat_numeral)
  have "retry_loop w e False 0 s1 = (Inl (exhausted e), after_attempts w 3 s1)"
    using f3 by (intro retry_exhaust) auto
  with a show ?thesis
    by (simp add: submit_order_unfold eval_nat_numeral)
qed

lemma retry_bound:
  "nat (3 - rc) = m \<Longrightarrow> \<exists>n. n \<le> m \<and> snd (retry_loop w e False rc s) = after_attempts w n s"
proof (induction m arbitrary: rc s)
  case 0
  then show ?case by (subst retry_loop_False) (auto intro: exI[of _ 0])
next
  case (Suc m)
  from Suc.prems have le: "rc + 1 \<le> 3" by linarith
  show ?case
  proof (cases "attempt_fails w s")
    case False
    then obtain s1 where "click_and_wait w s = (Inr (), s1)" using attempt_ok_D by blast
    with le have "snd (retry_loop w e False rc s) = after_attempts w (Suc 0) s"
      by (subst retry_loop_False) simp
    then show ?thesis by (intro exI[of _ "Suc 0"]) simp
  next
    case True
    then obtain e1 s1 where a: "click_and_wait w s = (Inl e1, s1)"
      using attempt_fails_D by blast
    from Suc.prems have "nat (3 - (rc + 1)) = m" by linarith
    from Suc.IH[OF this, of s1] obtain n where
      n: "n \<le> m" "snd (retry_loop w e False (rc + 1) s1) = after_attempts w n s1" by blast
    from a le n(2) have "snd (retry_loop w e False rc s) = after_attempts w (Suc n) s"
      by (subst retry_loop_False) simp
    with n(1) show ?thesis by (intro exI[of _ "Suc n"]) simp
  qed
qed

lemma submit_bound:
  "\<exists>n. 1 \<le> n \<and> n \<le> 4 \<and> snd (submit_order w s) = after_attempts w n s"
proof (cases "attempt_fails w s")
  case False
  then obtain s1 where "click_and_wait w s = (Inr (), s1)" using attempt_ok_D by blast
  then have "snd (submit_order w s) = after_attempts w (Suc 0) s"
    by (simp add: submit_order_unfold)
  then show ?thesis by (intro exI[of _ "Suc 0"]) simp
next
  case True
  then obtain e1 s1 where a: "click_and_wait w s = (Inl e1, s1)"
    using attempt_fails_D by blast
  obtain n where n: "n \<le> 3" "snd (retry_loop w e1 False 0 s1) = after_attempts w n s1"
    using retry_bound[of 0 3 w e1 s1] by auto
  from a n(2) have "snd (submit_order w s) = after_attempts w (Suc n) s"
    by (simp add: submit_order_unfold)
  with n(1) show ?thesis by (intro exI[of _ "Suc n"]) simp
qed

lemma click_and_wait_snd:
  "snd (click_and_wait w s) = s\<lparr>calls := calls s @ attempt_calls w s\<rparr>"
  by (simp add: click_and_wait_def click_order_def wait_for_receipt_def order_click_def
      receipt_wait_def seq_def bind_def perform_def attempt_calls_def split: option.splits)

lemma after_attempts_Suc: "after_attempts w (Suc n) s = snd (click_and_wait w (after_attempts w n s))"
  by (induction n arbitrary: s) simp_all

lemma after_attempts_log:
  "\<exists>new. after_attempts w n s = s\<lparr>calls := calls s @ new\<rparr> \<and>
     (\<forall>x \<in> set new. submit_call (fst x)) \<and>
     length (filter (\<lambda>x. fst x = order_click) new) = n \<and>
     length (filter (\<lambda>x. fst x = receipt_wait) new) \<le> n"
proof (induction n arbitrary: s)
  case 0
  show ?case by (intro exI[of _ "[]"]) simp
next
  case (Suc n)
  let ?s1 = "snd (click_and_wait w s)"
  from Suc.IH[of ?s1] obtain new where
    n: "after_attempts w n ?s1 = ?s1\<lparr>calls := calls ?s1 @ new\<rparr>"
       "\<forall>x \<in> set new. submit_call (fst x)"
       "length (filter (\<lambda>x. fst x = order_click) new) = n"
       "length (filter (\<lambda>x. fst x = receipt_wait) new) \<le> n" by blast
  have ne: "order_click \<noteq> receipt_wait" by (simp add: order_click_def receipt_wait_def)
  show ?case
    apply (rule exI[of _ "attempt_calls w s @ new"])
    using n ne
    apply (simp add: click_and_wait_snd)
    apply (auto simp: attempt_calls_def submit_call_def split: option.splits)
    done
qed

lemma new_calls_append [simp]: "new_calls s (s\<lparr>calls := calls s @ new\<rparr>) = new"
  by (simp add: new_calls_def)

lemma new_calls_attempt:
  "new_calls (after_attempts w i s) (after_attempts w (Suc i) s) = attempt_calls w (after_attempts w i s)"
  by (simp only: after_attempts_Suc click_and_wait_snd new_calls_append)

lemma after_attempts_cfg: "cfg (after_attempts w n s) = cfg s"
  using after_attempts_log[of w n s] by auto

lemma fill_ok_state:
  "fill_order_form w order s0 = (Inr (), s) \<Longrightarrow> s = s0\<lparr>calls := calls s0 @ map (\<lambda>c. (c, None)) (fill_calls order)\<rparr>"
  by (simp add: fill_order_form_all perform_all_ok)

lemma file_call_fill: "filter (file_call \<circ> fst) (map (\<lambda>c. (c, None)) (fill_calls order)) = []"
  by (simp add: fill_calls_def)

lemma file_call_submit: "submit_call c \<Longrightarrow> \<not> file_call c"
  by (auto simp: submit_call_def order_click_def receipt_wait_def)

lemmas run_defs = click_and_wait_def seq_def bind_def perform_def click_order_def wait_for_receipt_def
  attempt_fails_def world_fail_at_def state0_def state_filled_def order_click_def receipt_wait_def
  new_calls_def fill_calls_def order1_def fill_order_form_def return_def timeout_exn_def


section \<open>The log of a sequence of calls\<close>

lemma perform_all_new:
  "\<exists>new. snd (perform_all w cs s) = s\<lparr>calls := calls s @ new\<rparr> \<and>
     new_calls s (snd (perform_all w cs s)) = new \<and> prefix (map fst new) cs \<and>
     (\<forall>xs c e ys. new = xs @ (c, Some e) # ys \<longrightarrow> ys = [] \<and> fst (perform_all w cs s) = Inl e) \<and>
     (\<forall>e. fst (perform_all w cs s) = Inl e \<longrightarrow> (\<exists>xs c. new = xs @ [(c, Some e)]))"
  using perform_all_log[of w cs s] by (auto simp: new_calls_def)

lemma outcome_of_Cons_None: "outcome_of ((c, None) # l) = outcome_of l"
  by (cases l) (simp_all add: outcome_of_def)

lemma perform_all_run_log:
  "perform_all w cs s =
     ((case outcome_of (run_log w (calls s) cs) of None \<Rightarrow> Inr () | Some e \<Rightarrow> Inl e),
      s\<lparr>calls := calls s @ run_log w (calls s) cs\<rparr>)"
proof (induction cs arbitrary: s)
  case Nil
  show ?case by (simp add: return_def outcome_of_def)
next
  case (Cons c cs)
  show ?case
  proof (cases "raises w (calls s) c")
    case (Some e)
    then show ?thesis
      by (simp add: seq_def bind_def perform_def outcome_of_def)
  next
    case None
    let ?s1 = "s\<lparr>calls := calls s @ [(c, None)]\<rparr>"
    from None have "perform_all w (c # cs) s = perform_all w cs ?s1"
      by (simp add: seq_def bind_def perform_def)
    also have "\<dots> = ((case outcome_of (run_log w (calls ?s1) cs) of None \<Rightarrow> Inr () | Some e \<Rightarrow> Inl e),
      ?s1\<lparr>calls := calls ?s1 @ run_log w (calls ?s1) cs\<rparr>)"
      by (rule Cons.IH)
    finally show ?thesis
      using None by (simp add: outcome_of_Cons_None del: perform_all.simps)
  qed
qed

lemma run_log_all_return:
  "outcome_of (run_log w l cs) = None \<Longrightarrow> run_log w l cs = map (\<lambda>c. (c, None)) cs"
proof (induction cs arbitrary: l)
  case Nil
  show ?case by simp
next
  case (Cons c cs)
  show ?case
  proof (cases "raises w l c")
    case (Some e)
    with Cons.prems show ?thesis by (simp add: outcome_of_def)
  next
    case None
    with Cons.prems have "outcome_of (run_log w (l @ [(c, None)]) cs) = None"
      by (simp add: outcome_of_Cons_None)
    from Cons.IH[OF this] None show ?thesis by simp
  qed
qed

lemma outcome_of_snoc: "outcome_of (l @ [x]) = snd x"
  by (cases l) (simp_all add: outcome_of_def)

lemma run_log_fail_at:
  "run_log w l xs = map (\<lambda>c. (c, None)) xs \<Longrightarrow>
   raises w (l @ map (\<lambda>c. (c, None)) xs) c = Some e \<Longrightarrow>
   run_log w l (xs @ c # ys) = map (\<lambda>c. (c, None)) xs @ [(c, Some e)]"
proof (induction xs arbitrary: l)
  case Nil
  then show ?case by simp
next
  case (Cons x xs)
  show ?case
  proof (cases "raises w l x")
    case (Some e')
    with Cons.prems(1) show ?thesis by simp
  next
    case None
    with Cons.prems(1) have a: "run_log w (l @ [(x, None)]) xs = map (\<lambda>c. (c, None)) xs"
      by simp
    from Cons.prems(2) have b: "raises w ((l @ [(x, None)]) @ map (\<lambda>c. (c, None)) xs) c = Some e"
      by simp
    from Cons.IH[OF a b] None show ?thesis by simp
  qed
qed

lemma await_robot_preview_run_log:
  "await_robot_preview w h b l t s =
     ((case outcome_of (run_log w (calls s) (preview_calls h b l t)) of
         None \<Rightarrow> Inr () | Some e \<Rightarrow> Inl e),
      s\<lparr>calls := calls s @ run_log w (calls s) (preview_calls h b l t)\<rparr>)"
  by (simp only: await_robot_preview_all perform_all_run_log)

lemma click_and_wait_run_log:
  "click_and_wait w s =
     ((case outcome_of (run_log w (calls s) [order_click, receipt_wait]) of
         None \<Rightarrow> Inr () | Some e \<Rightarrow> Inl e),
      s\<lparr>calls := calls s @ run_log w (calls s) [order_click, receipt_wait]\<rparr>)"
  by (simp only: click_and_wait_all perform_all_run_log)

lemma attempt_ok_calls:
  "\<not> attempt_fails w t \<Longrightarrow>
   new_calls t (snd (click_and_wait w t)) = [(order_click, None), (receipt_wait, None)]"
proof -
  assume "\<not> attempt_fails w t"
  then have "outcome_of (run_log w (calls t) [order_click, receipt_wait]) = None"
    by (cases "outcome_of (run_log w (calls t) [order_click, receipt_wait])")
       (simp_all add: attempt_fails_def click_and_wait_run_log)
  from run_log_all_return[OF this] show ?thesis
    by (simp add: click_and_wait_run_log)
qed

lemma attempt_fails_calls:
  "attempt_fails w t \<Longrightarrow>
   \<exists>xs c e. new_calls t (snd (click_and_wait w t)) = xs @ [(c, Some e)] \<and>
            fst (click_and_wait w t) = Inl e"
proof -
  assume "attempt_fails w t"
  then obtain e where e: "fst (click_and_wait w t) = Inl e"
    by (cases "fst (click_and_wait w t)") (simp_all add: attempt_fails_def)
  then have "fst (perform_all w [order_click, receipt_wait] t) = Inl e"
    by (simp only: click_and_wait_all)
  with perform_all_new[of w "[order_click, receipt_wait]" t]
  obtain xs c where "new_calls t (snd (perform_all w [order_click, receipt_wait] t)) = xs @ [(c, Some e)]"
    by blast
  with e show ?thesis by (auto simp only: click_and_wait_all)
qed

lemma fails_first_nth: "fails_first w K s \<Longrightarrow> i < K \<Longrightarrow> attempt_fails w (after_attempts w i s)"
proof (induction K arbitrary: s i)
  case 0
  then show ?case by simp
next
  case (Suc K)
  show ?case
  proof (cases i)
    case 0
    with Suc.prems show ?thesis by simp
  next
    case (Suc j)
    with Suc.prems Suc.IH[of "snd (click_and_wait w s)" j] show ?thesis by simp
  qed
qed


section \<open>Submitting an order\<close>

text \<open>
  C8: the retry loop of \<^verbatim>\<open>submit_order\<close> ends for every sequence of attempt outcomes.
  \<open>retry_loop\<close> is a total function (its termination is proved at its definition), and
  \<^verbatim>\<open>submit_order\<close> makes \<open>n\<close> attempts with \<open>1 \<le> n \<le> 4\<close>: it clicks the Order button
  exactly \<open>n\<close> times and waits for the receipt at most \<open>n\<close> times, and then has returned or
  raised.
\<close>

theorem submit_order_terminates:
  "\<exists>n. 1 \<le> n \<and> n \<le> 4 \<and> snd (submit_order w s) = after_attempts w n s \<and>
     length (filter (\<lambda>x. fst x = order_click) (new_calls s (snd (submit_order w s)))) = n \<and>
     length (filter (\<lambda>x. fst x = receipt_wait) (new_calls s (snd (submit_order w s)))) \<le> n \<and>
     (fst (submit_order w s) = Inr () \<or> (\<exists>e. fst (submit_order w s) = Inl e))"
proof -
  obtain n where n: "1 \<le> n" "n \<le> 4" "snd (submit_order w s) = after_attempts w n s"
    using submit_bound by blast
  obtain new where new: "after_attempts w n s = s\<lparr>calls := calls s @ new\<rparr>"
    "length (filter (\<lambda>x. fst x = order_click) new) = n"
    "length (filter (\<lambda>x. fst x = receipt_wait) new) \<le> n"
    using after_attempts_log[of w n s] by blast
  have r: "fst (submit_order w s) = Inr () \<or> (\<exists>e. fst (submit_order w s) = Inl e)"
    by (cases "fst (submit_order w s)") auto
  show ?thesis
    using n new r by (intro exI[of _ n]) simp
qed


text \<open>
  C1: when the attempt fails the first \<open>K \<le> 3\<close> times and succeeds on attempt \<open>K + 1\<close>,
  \<^verbatim>\<open>submit_order\<close> returns without raising, after exactly \<open>K + 1\<close> attempts; the workflow
  then runs the capture step \<^verbatim>\<open>store_receipt_as_pdf\<close> for that order once, from the state
  the last attempt left. Every attempt is the two statements of the \<^verbatim>\<open>try\<close> block, the
  click of the Order button followed by the wait for \<^verbatim>\<open>#receipt\<close>, run in that order: its
  calls are the log of the call list click, wait. The attempt that succeeds makes exactly one
  click and then one wait, both returning; each of the \<open>K\<close> attempts before it ends with the
  call that raised; the Order button is clicked \<open>K + 1\<close> times in all, and no call other
  than those clicks and waits is made.
\<close>

theorem submit_order_retry_success:
  assumes "K \<le> 3" "fails_first w K s" "\<not> attempt_fails w (after_attempts w K s)"
  shows "submit_order w s = (Inr (), after_attempts w (Suc K) s) \<and>
    (\<forall>order orders s0. fill_order_form w order s0 = (Inr (), s) \<longrightarrow>
       fill_and_submit_sales_form w (order # orders) s0 =
         seq (store_receipt_as_pdf w order)
        (seq (go_back_to_order_form w)
        (seq (close_annoying_modal w)
             (fill_and_submit_sales_form w orders))) (after_attempts w (Suc K) s)) \<and>
    (\<forall>i. after_attempts w (Suc i) s =
           snd (seq (click_order w) (wait_for_receipt w) (after_attempts w i s))) \<and>
    (\<forall>i. new_calls (after_attempts w i s) (after_attempts w (Suc i) s) =
           run_log w (calls (after_attempts w i s)) [order_click, receipt_wait]) \<and>
    new_calls (after_attempts w K s) (after_attempts w (Suc K) s) =
      [(order_click, None), (receipt_wait, None)] \<and>
    (\<forall>i < K. \<exists>xs c e. new_calls (after_attempts w i s) (after_attempts w (Suc i) s)
                        = xs @ [(c, Some e)]) \<and>
    length (filter (\<lambda>x. fst x = order_click) (new_calls s (after_attempts w (Suc K) s))) = Suc K \<and>
    (\<forall>x \<in> set (new_calls s (after_attempts w (Suc K) s)).
       fst x = order_click \<or> fst x = receipt_wait)"
proof -
  have a: "submit_order w s = (Inr (), after_attempts w (Suc K) s)"
    using assms by (rule submit_order_success)
  have b: "fill_and_submit_sales_form w (order # orders) s0 =
         seq (store_receipt_as_pdf w order)
        (seq (go_back_to_order_form w)
        (seq (close_annoying_modal w)
             (fill_and_submit_sales_form w orders))) (after_attempts w (Suc K) s)"
    if "fill_order_form w order s0 = (Inr (), s)" for order orders s0
    using that a by (simp add: seq_Inr del: after_attempts.simps)
  have c: "after_attempts w (Suc i) s =
           snd (seq (click_order w) (wait_for_receipt w) (after_attempts w i s))" for i
    by (simp only: after_attempts_Suc click_and_wait_def)
  have d: "new_calls (after_attempts w i s) (after_attempts w (Suc i) s) =
           run_log w (calls (after_attempts w i s)) [order_click, receipt_wait]" for i
    by (simp only: after_attempts_Suc) (simp add: click_and_wait_run_log)
  have e: "new_calls (after_attempts w K s) (after_attempts w (Suc K) s) =
      [(order_click, None), (receipt_wait, None)]"
    using attempt_ok_calls[OF assms(3)] by (simp only: after_attempts_Suc)
  have f: "\<exists>xs c e. new_calls (after_attempts w i s) (after_attempts w (Suc i) s) = xs @ [(c, Some e)]"
    if "i < K" for i
    using attempt_fails_calls[OF fails_first_nth[OF assms(2) that]]
    by (simp only: after_attempts_Suc) blast
  obtain new where new: "after_attempts w (Suc K) s = s\<lparr>calls := calls s @ new\<rparr>"
    "\<forall>x \<in> set new. submit_call (fst x)"
    "length (filter (\<lambda>x. fst x = order_click) new) = Suc K"
    using after_attempts_log[of w "Suc K" s] by blast
  have g: "length (filter (\<lambda>x. fst x = order_click) (new_calls s (after_attempts w (Suc K) s))) = Suc K"
    using new(1,3) by (simp del: after_attempts.simps)
  have h: "\<forall>x \<in> set (new_calls s (after_attempts w (Suc K) s)).
       fst x = order_click \<or> fst x = receipt_wait"
    using new(1,2) by (simp add: submit_call_def del: after_attempts.simps)
  show ?thesis
    using a b c d e f g h by blast
qed

text \<open>The theorem at a run whose first click times out and whose second attempt succeeds.\<close>

theorem submit_order_retry_success_witness:
  "fill_order_form (world_fail_at [4]) order1 state0 = (Inr (), state_filled) \<and>
   (1::nat) \<le> 3 \<and>
   fails_first (world_fail_at [4]) 1 state_filled \<and>
   \<not> attempt_fails (world_fail_at [4]) (after_attempts (world_fail_at [4]) 1 state_filled) \<and>
   submit_order (world_fail_at [4]) state_filled
     = (Inr (), after_attempts (world_fail_at [4]) 2 state_filled) \<and>
   fill_and_submit_sales_form (world_fail_at [4]) [order1] state0 =
     seq (store_receipt_as_pdf (world_fail_at [4]) order1)
    (seq (go_back_to_order_form (world_fail_at [4]))
    (seq (close_annoying_modal (world_fail_at [4]))
         (fill_and_submit_sales_form (world_fail_at [4]) [])))
      (after_attempts (world_fail_at [4]) 2 state_filled) \<and>
   new_calls state_filled (after_attempts (world_fail_at [4]) 1 state_filled)
     = [(order_click, Some timeout_exn)] \<and>
   new_calls (after_attempts (world_fail_at [4]) 1 state_filled)
       (after_attempts (world_fail_at [4]) 2 state_filled)
     = [(order_click, None), (receipt_wait, None)] \<and>
   length (filter (\<lambda>x. fst x = order_click)
     (new_calls state_filled (after_attempts (world_fail_at [4]) 2 state_filled))) = 2"
proof -
  let ?w = "world_fail_at [4]"
  have h0: "fill_order_form ?w order1 state0 = (Inr (), state_filled)"
    by (simp add: run_defs)
  have h1: "(1::nat) \<le> 3" by simp
  have h2: "fails_first ?w 1 state_filled" by (simp add: run_defs)
  have h3: "\<not> attempt_fails ?w (after_attempts ?w 1 state_filled)" by (simp add: run_defs)
  note T = submit_order_retry_success[OF h1 h2 h3]
  have two: "Suc 1 = 2" by simp
  from T have a: "submit_order ?w state_filled = (Inr (), after_attempts ?w 2 state_filled)"
    by (simp only: two)
  from T h0 have b: "fill_and_submit_sales_form ?w [order1] state0 =
     seq (store_receipt_as_pdf ?w order1)
    (seq (go_back_to_order_form ?w)
    (seq (close_annoying_modal ?w)
         (fill_and_submit_sales_form ?w []))) (after_attempts ?w 2 state_filled)"
    by (simp only: two)
  have c: "new_calls state_filled (after_attempts ?w 1 state_filled) = [(order_click, Some timeout_exn)]"
    by (simp add: run_defs)
  from T have d: "new_calls (after_attempts ?w 1 state_filled) (after_attempts ?w 2 state_filled)
     = [(order_click, None), (receipt_wait, None)]"
    by (simp only: two)
  from T have e: "length (filter (\<lambda>x. fst x = order_click)
     (new_calls state_filled (after_attempts ?w 2 state_filled))) = 2"
    by (simp only: two)
  show ?thesis using h0 h1 h2 h3 a b c d e by blast
qed


text \<open>
  C2: when the first attempt and all three retries fail, \<^verbatim>\<open>submit_order\<close> raises an
  exception whose text holds the retry count 3 and the text of the exception of the first
  attempt; in the workflow that exception ends the batch, and no call that takes a screenshot
  or writes or changes a PDF receipt was made for the order.
\<close>

theorem submit_order_retry_exhausted:
  assumes "fails_first w 4 s" "fst (click_and_wait w s) = Inl e"
  shows "submit_order w s =
      (Inl (Exn ''Exception''
         (''Failed to return to order form after '' @ str_int max_retries @ '' attempts: ''
            @ exn_str e)), after_attempts w 4 s) \<and>
    str_int max_retries = ''3'' \<and>
    (\<forall>order orders s0. fill_order_form w order s0 = (Inr (), s) \<longrightarrow>
       fill_and_submit_sales_form w (order # orders) s0 =
         (Inl (Exn ''Exception''
            (''Failed to return to order form after '' @ str_int max_retries @ '' attempts: ''
               @ exn_str e)), after_attempts w 4 s) \<and>
       filter (file_call \<circ> fst) (new_calls s0 (after_attempts w 4 s)) = [])"
proof -
  have m: "str_int max_retries = ''3''" by (simp add: max_retries_def str_int_3)
  have a: "submit_order w s = (Inl (exhausted e), after_attempts w 4 s)"
    using assms by (rule submit_order_exhaust)
  have b: "fill_and_submit_sales_form w (order # orders) s0 = (Inl (exhausted e), after_attempts w 4 s)"
    if "fill_order_form w order s0 = (Inr (), s)" for order orders s0
    using that a by (simp add: seq_Inr seq_Inl)
  have c: "filter (file_call \<circ> fst) (new_calls s0 (after_attempts w 4 s)) = []"
    if f: "fill_order_form w order s0 = (Inr (), s)" for order s0
  proof -
    obtain new where new: "after_attempts w 4 s = s\<lparr>calls := calls s @ new\<rparr>"
      "\<forall>x \<in> set new. submit_call (fst x)"
      using after_attempts_log[of w 4 s] by blast
    have "filter (file_call \<circ> fst) new = []"
      using new(2) by (auto simp: filter_empty_conv file_call_submit)
    then show ?thesis
      using new(1) fill_ok_state[OF f] by (simp add: new_calls_def file_call_fill)
  qed
  show ?thesis
    using a b c m by (simp add: exhausted_def)
qed

text \<open>The theorem at a run in which four attempts in a row time out.\<close>

theorem submit_order_retry_exhausted_witness:
  "fails_first (world_fail_at [4, 5, 7, 9]) 4 state_filled \<and>
   fst (click_and_wait (world_fail_at [4, 5, 7, 9]) state_filled) = Inl timeout_exn \<and>
   fill_order_form (world_fail_at [4, 5, 7, 9]) order1 state0 = (Inr (), state_filled) \<and>
   submit_order (world_fail_at [4, 5, 7, 9]) state_filled =
     (Inl (Exn ''Exception''
        ''Failed to return to order form after 3 attempts: Timeout 1000ms exceeded.''),
      after_attempts (world_fail_at [4, 5, 7, 9]) 4 state_filled) \<and>
   fill_and_submit_sales_form (world_fail_at [4, 5, 7, 9]) [order1] state0 =
     (Inl (Exn ''Exception''
        ''Failed to return to order form after 3 attempts: Timeout 1000ms exceeded.''),
      after_attempts (world_fail_at [4, 5, 7, 9]) 4 state_filled) \<and>
   filter (file_call \<circ> fst)
     (new_calls state0 (after_attempts (world_fail_at [4, 5, 7, 9]) 4 state_filled)) = []"
proof -
  let ?w = "world_fail_at [4, 5, 7, 9]"
  have h0: "fill_order_form ?w order1 state0 = (Inr (), state_filled)"
    by (simp add: run_defs)
  have h1: "fails_first ?w 4 state_filled" by (simp add: run_defs eval_nat_numeral)
  have h2: "fst (click_and_wait ?w state_filled) = Inl timeout_exn" by (simp add: run_defs)
  note T = submit_order_retry_exhausted[OF h1 h2]
  have m: "str_int max_retries = ''3''" using T by blast
  from T have a: "submit_order ?w state_filled =
     (Inl (Exn ''Exception''
        ''Failed to return to order form after 3 attempts: Timeout 1000ms exceeded.''),
      after_attempts ?w 4 state_filled)"
    by (simp add: m timeout_exn_def)
  from T h0 have "fill_and_submit_sales_form ?w [order1] state0 =
     (Inl (Exn ''Exception''
        (''Failed to return to order form after '' @ str_int max_retries @ '' attempts: ''
           @ exn_str timeout_exn)), after_attempts ?w 4 state_filled)"
    by blast
  then have b: "fill_and_submit_sales_form ?w [order1] state0 =
     (Inl (Exn ''Exception''
        ''Failed to return to order form after 3 attempts: Timeout 1000ms exceeded.''),
      after_attempts ?w 4 state_filled)"
    by (simp add: m timeout_exn_def del: fill_and_submit_sales_form.simps)
  from T h0 have c: "filter (file_call \<circ> fst) (new_calls state0 (after_attempts ?w 4 state_filled)) = []"
    by blast
  show ?thesis using h0 h1 h2 a b c by blast
qed

section \<open>The capture step\<close>

lemma perform_all_Inl:
  "perform_all w xs s = (Inl e, s1) \<Longrightarrow> perform_all w (xs @ ys) s = (Inl e, s1)"
  by (simp add: perform_all_append seq_Inl)

lemma perform_all_Inr:
  "perform_all w xs s = (Inr u, s1) \<Longrightarrow> perform_all w (xs @ ys) s = perform_all w ys s1"
  by (simp add: perform_all_append seq_Inr)

lemma perform_all_cfg: "cfg (snd (perform_all w cs s)) = cfg s"
  using perform_all_log[of w cs s] by auto

lemma perform_all_cases:
  "(\<exists>e s1. perform_all w cs s = (Inl e, s1)) \<or>
   perform_all w cs s = (Inr (), s\<lparr>calls := calls s @ map (\<lambda>c. (c, None)) cs\<rparr>)"
proof (cases "perform_all w cs s")
  case (Pair r s1)
  then show ?thesis
    by (cases r) (auto dest: perform_all_ok)
qed

lemma bind_assoc: "bind (bind f g) h = bind f (\<lambda>x. bind (g x) h)"
  by (rule ext) (simp add: bind_def split: prod.splits sum.splits)

lemma screenshot_robot_all:
  "screenshot_robot w order s =
     bind (perform_all w (preview_calls (head order) (body order) (legs order) default_timeout
                          @ [Screenshot (screenshot_path w (cfg s) order)]))
       (\<lambda>_. return (screenshot_path w (cfg s) order)) s"
  by (simp add: screenshot_robot_def with_config_def Let_def await_robot_preview_all
      perform_all_append seq_return)
     (simp add: seq_def bind_assoc)

lemma store_receipt_as_pdf_all:
  "store_receipt_as_pdf w order s =
     perform_all w (capture_calls w (cfg s) order (capture_html w s order)) s"
proof -
  let ?P = "preview_calls (head order) (body order) (legs order) default_timeout
            @ [Screenshot (screenshot_path w (cfg s) order)]"
  let ?rp = "receipt_path w (cfg s) order"
  let ?sp = "screenshot_path w (cfg s) order"
  let ?Q = "[InnerHtml ''#receipt'', HtmlToPdf (capture_html w s order) ?rp,
             AddWatermarkImageToPdf ?sp ?rp ?rp]"
  have cc: "capture_calls w (cfg s) order (capture_html w s order) = ?P @ ?Q"
    by (simp add: capture_calls_def)
  from perform_all_cases[of w ?P s] show ?thesis
  proof
    assume "\<exists>e s1. perform_all w ?P s = (Inl e, s1)"
    then obtain e s1 where a: "perform_all w ?P s = (Inl e, s1)" by blast
    have "store_receipt_as_pdf w order s = (Inl e, s1)"
      using a by (simp add: store_receipt_as_pdf_def screenshot_robot_all bind_def
          del: perform_all.simps)
    moreover have "perform_all w (?P @ ?Q) s = (Inl e, s1)"
      using a by (rule perform_all_Inl)
    ultimately show ?thesis by (simp only: cc)
  next
    let ?s1 = "s\<lparr>calls := calls s @ map (\<lambda>c. (c, None)) ?P\<rparr>"
    assume a: "perform_all w ?P s = (Inr (), ?s1)"
    have sr: "screenshot_robot w order s = (Inr ?sp, ?s1)"
      using a by (simp add: screenshot_robot_all bind_def return_def del: perform_all.simps)
    have "store_receipt_as_pdf w order s = perform_all w ?Q ?s1"
      unfolding store_receipt_as_pdf_def
      by (subst bind_Inr[of "screenshot_robot w order" s, OF sr])
         (simp add: inner_html_def with_config_def Let_def embed_screenshot_to_receipt_def
          capture_html_def seq_def bind_def return_def perform_def split: option.splits)
    moreover have "perform_all w (?P @ ?Q) s = perform_all w ?Q ?s1"
      using a by (rule perform_all_Inr)
    ultimately show ?thesis by (simp only: cc)
  qed
qed

lemma preview_calls_waits:
  "c \<in> set (preview_calls h b l t) \<Longrightarrow> \<exists>sel. c = WaitForSelector sel ''visible'' t"
  by (auto simp: preview_calls_def split: if_splits)

lemma str_int_1: "str_int 1 = ''1''"
  by (simp add: str_int_def digits.simps digit_char_def)

lemma str_int_2: "str_int 2 = ''2''"
  by (simp add: str_int_def digits.simps digit_char_def)

lemmas capture_defs = store_receipt_as_pdf_def screenshot_robot_def await_robot_preview_def
  inner_html_def embed_screenshot_to_receipt_def with_config_def seq_def bind_def perform_def
  return_def new_calls_def world_ok_def state0_def order1_def order_no_head_def Config_new_def
  screenshot_path_def receipt_path_def absolute_def is_absolute_def joinpath_def Path_of_def
  anchor_of_def parse_parts_def default_timeout_def
  head_selector_def body_selector_def legs_selector_def str_int_1 str_int_2 Let_def

text \<open>
  C3, as amended: for every order, the capture step \<^verbatim>\<open>store_receipt_as_pdf\<close> makes its
  calls in this order: the waits for the robot preview (the container, then the parts of the
  order), the screenshot, the extraction of the receipt HTML, the rendering of the PDF, and last
  the embedding of the screenshot into the PDF. A capture that raises has made an initial part
  of that sequence; a capture that returns has made all of it, each call returning.
\<close>

theorem capture_step_order:
  "prefix (map fst (new_calls s (snd (store_receipt_as_pdf w order s))))
     (preview_calls (head order) (body order) (legs order) default_timeout @
      [Screenshot (screenshot_path w (cfg s) order),
       InnerHtml ''#receipt'',
       HtmlToPdf (capture_html w s order) (receipt_path w (cfg s) order),
       AddWatermarkImageToPdf (screenshot_path w (cfg s) order)
         (receipt_path w (cfg s) order) (receipt_path w (cfg s) order)]) \<and>
   (fst (store_receipt_as_pdf w order s) = Inr () \<longrightarrow>
    new_calls s (snd (store_receipt_as_pdf w order s)) =
      map (\<lambda>c. (c, None))
        (preview_calls (head order) (body order) (legs order) default_timeout @
         [Screenshot (screenshot_path w (cfg s) order),
          InnerHtml ''#receipt'',
          HtmlToPdf (capture_html w s order) (receipt_path w (cfg s) order),
          AddWatermarkImageToPdf (screenshot_path w (cfg s) order)
            (receipt_path w (cfg s) order) (receipt_path w (cfg s) order)]))"
proof -
  let ?cs = "capture_calls w (cfg s) order (capture_html w s order)"
  have eq: "store_receipt_as_pdf w order s = perform_all w ?cs s"
    by (rule store_receipt_as_pdf_all)
  have p: "prefix (map fst (new_calls s (snd (perform_all w ?cs s)))) ?cs"
    using perform_all_new[of w ?cs s] by auto
  have q: "new_calls s (snd (perform_all w ?cs s)) = map (\<lambda>c. (c, None)) ?cs"
    if "fst (perform_all w ?cs s) = Inr ()"
  proof -
    from that have "perform_all w ?cs s = (Inr (), snd (perform_all w ?cs s))"
      by (metis prod.collapse)
    from perform_all_ok[OF this] show ?thesis
      by (metis new_calls_append)
  qed
  show ?thesis
    using p q unfolding eq capture_calls_def by simp
qed

text \<open>
  The theorem at the order 1 with parts 1, 2, 3 in a world where every call returns.
\<close>

theorem capture_step_order_witness:
  "fst (store_receipt_as_pdf world_ok order1 state0) = Inr () \<and>
   new_calls state0 (snd (store_receipt_as_pdf world_ok order1 state0)) =
     map (\<lambda>c. (c, None))
       [WaitForSelector ''#robot-preview-image'' ''visible'' 5000,
        WaitForSelector ''#robot-preview-image img[src='/heads/1.png']'' ''visible'' 5000,
        WaitForSelector ''#robot-preview-image img[src='/bodies/2.png']'' ''visible'' 5000,
        WaitForSelector ''#robot-preview-image img[src='/legs/3.png']'' ''visible'' 5000,
        Screenshot (Path Slash [''robot'', ''output'', ''screenshots'', ''robot-1.png'']),
        InnerHtml ''#receipt'',
        HtmlToPdf ''<p>receipt</p>'' (Path Slash [''robot'', ''output'', ''receipts'', ''receipt-1.pdf'']),
        AddWatermarkImageToPdf (Path Slash [''robot'', ''output'', ''screenshots'', ''robot-1.png''])
          (Path Slash [''robot'', ''output'', ''receipts'', ''receipt-1.pdf'']) (Path Slash [''robot'', ''output'', ''receipts'', ''receipt-1.pdf''])]"
proof -
  have h: "fst (store_receipt_as_pdf world_ok order1 state0) = Inr ()"
    by (simp add: capture_defs)
  have "new_calls state0 (snd (store_receipt_as_pdf world_ok order1 state0)) =
      map (\<lambda>c. (c, None))
        (preview_calls (head order1) (body order1) (legs order1) default_timeout @
         [Screenshot (screenshot_path world_ok (cfg state0) order1),
          InnerHtml ''#receipt'',
          HtmlToPdf (capture_html world_ok state0 order1) (receipt_path world_ok (cfg state0) order1),
          AddWatermarkImageToPdf (screenshot_path world_ok (cfg state0) order1)
            (receipt_path world_ok (cfg state0) order1) (receipt_path world_ok (cfg state0) order1)])"
    using capture_step_order[of state0 world_ok order1] h by blast
  then show ?thesis
    using h
    by (simp add: preview_calls_def capture_html_def world_ok_def state0_def order1_def
        Config_new_def screenshot_path_def receipt_path_def absolute_def is_absolute_def
        joinpath_def Path_of_def anchor_of_def parse_parts_def default_timeout_def head_selector_def body_selector_def legs_selector_def
        str_int_1)
qed

text \<open>
  C3 as stated fails: it has the receipt HTML extracted and the PDF rendered before the preview
  waits and the screenshot. \<^verbatim>\<open>store_receipt_as_pdf\<close> calls \<^verbatim>\<open>screenshot_robot\<close> first, so
  the waits and the screenshot come before the extraction.
\<close>

theorem capture_step_order_counterexample:
  "fst (store_receipt_as_pdf world_ok order1 state0) = Inr () \<and>
   map fst (new_calls state0 (snd (store_receipt_as_pdf world_ok order1 state0))) =
     [WaitForSelector ''#robot-preview-image'' ''visible'' 5000,
      WaitForSelector ''#robot-preview-image img[src='/heads/1.png']'' ''visible'' 5000,
      WaitForSelector ''#robot-preview-image img[src='/bodies/2.png']'' ''visible'' 5000,
      WaitForSelector ''#robot-preview-image img[src='/legs/3.png']'' ''visible'' 5000,
      Screenshot (Path Slash [''robot'', ''output'', ''screenshots'', ''robot-1.png'']),
      InnerHtml ''#receipt'',
      HtmlToPdf ''<p>receipt</p>'' (Path Slash [''robot'', ''output'', ''receipts'', ''receipt-1.pdf'']),
      AddWatermarkImageToPdf (Path Slash [''robot'', ''output'', ''screenshots'', ''robot-1.png''])
        (Path Slash [''robot'', ''output'', ''receipts'', ''receipt-1.pdf'']) (Path Slash [''robot'', ''output'', ''receipts'', ''receipt-1.pdf''])] \<and>
   map fst (new_calls state0 (snd (store_receipt_as_pdf world_ok order1 state0))) \<noteq>
     spec_capture_calls world_ok Config_new order1 ''<p>receipt</p>''"
  by (simp add: capture_defs spec_capture_calls_def preview_calls_def)

lemma bind_return_snd: "snd (bind f (\<lambda>_. return x) s) = snd (f s)"
  by (cases "f s") (simp add: bind_def return_def split: sum.splits)

lemma bind_fst_Inl: "fst (f s) = Inl e \<Longrightarrow> fst (bind f g s) = Inl e"
  by (cases "f s") (simp add: bind_def split: sum.splits)

lemma screenshot_robot_cases:
  "(\<exists>e. fst (await_robot_preview w (head order) (body order) (legs order) default_timeout s) = Inl e \<and>
        screenshot_robot w order s =
          (Inl e, snd (await_robot_preview w (head order) (body order) (legs order) default_timeout s))) \<or>
   (\<exists>x. new_calls s (snd (screenshot_robot w order s)) =
        map (\<lambda>c. (c, None)) (preview_calls (head order) (body order) (legs order) default_timeout)
        @ [(Screenshot (screenshot_path w (cfg s) order), x)])"
proof -
  let ?P = "preview_calls (head order) (body order) (legs order) default_timeout"
  let ?S = "Screenshot (screenshot_path w (cfg s) order)"
  from perform_all_cases[of w ?P s] show ?thesis
  proof
    assume "\<exists>e s1. perform_all w ?P s = (Inl e, s1)"
    then obtain e s1 where a: "perform_all w ?P s = (Inl e, s1)" by blast
    then have "perform_all w (?P @ [?S]) s = (Inl e, s1)" by (rule perform_all_Inl)
    then have "screenshot_robot w order s = (Inl e, s1)"
      by (simp add: screenshot_robot_all bind_def del: perform_all.simps)
    with a show ?thesis by (simp add: await_robot_preview_all)
  next
    let ?s1 = "s\<lparr>calls := calls s @ map (\<lambda>c. (c, None)) ?P\<rparr>"
    assume a: "perform_all w ?P s = (Inr (), ?s1)"
    then have "perform_all w (?P @ [?S]) s = perform_all w [?S] ?s1" by (rule perform_all_Inr)
    then have "snd (screenshot_robot w order s) = snd (perform w ?S ?s1)"
      by (simp add: screenshot_robot_all bind_def return_def seq_return
          del: perform_all.simps split: prod.splits sum.splits)
         (simp add: seq_return)
    then have "new_calls s (snd (screenshot_robot w order s)) =
        map (\<lambda>c. (c, None)) ?P @ [(?S, raises w (calls ?s1) ?S)]"
      by (simp add: perform_snd new_calls_def)
    then show ?thesis by blast
  qed
qed

lemma screenshot_robot_run_log:
  "screenshot_robot w order s =
     ((case outcome_of (run_log w (calls s)
               (preview_calls (head order) (body order) (legs order) default_timeout
                @ [Screenshot (screenshot_path w (cfg s) order)])) of
         None \<Rightarrow> Inr (screenshot_path w (cfg s) order) | Some e \<Rightarrow> Inl e),
      s\<lparr>calls := calls s @ run_log w (calls s)
               (preview_calls (head order) (body order) (legs order) default_timeout
                @ [Screenshot (screenshot_path w (cfg s) order)])\<rparr>)"
  by (simp add: screenshot_robot_all bind_def perform_all_run_log return_def
      del: perform_all.simps split: option.splits)

lemma screenshot_robot_fail_at:
  assumes "preview_calls (head order) (body order) (legs order) 5000 = xs @ c # ys"
    and "run_log w (calls s) xs = map (\<lambda>c. (c, None)) xs"
    and "raises w (calls s @ map (\<lambda>c. (c, None)) xs) c = Some e"
  shows "screenshot_robot w order s =
           (Inl e, s\<lparr>calls := calls s @ map (\<lambda>c. (c, None)) xs @ [(c, Some e)]\<rparr>)"
proof -
  let ?S = "Screenshot (screenshot_path w (cfg s) order)"
  have "run_log w (calls s) (xs @ c # (ys @ [?S])) = map (\<lambda>c. (c, None)) xs @ [(c, Some e)]"
    using assms(2,3) by (rule run_log_fail_at)
  then have r: "run_log w (calls s)
         (preview_calls (head order) (body order) (legs order) default_timeout @ [?S])
       = map (\<lambda>c. (c, None)) xs @ [(c, Some e)]"
    using assms(1) by (simp add: default_timeout_def)
  have o: "outcome_of (map (\<lambda>c. (c, None)) xs @ [(c, Some e)]) = Some e"
    using outcome_of_snoc[of "map (\<lambda>c. (c, None)) xs" "(c, Some e)"] by simp
  show ?thesis
    by (simp only: screenshot_robot_run_log r o) simp
qed

text \<open>
  Bounds on the calls of \<^verbatim>\<open>screenshot_robot\<close>: they are a prefix of the preview waits
  followed by the screenshot, a call that raises is the last call made and its exception is
  raised, and when a wait raises no screenshot call is made.
\<close>

lemma preview_wait_bounds:
  "prefix (map fst (new_calls s (snd (screenshot_robot w order s))))
     (preview_calls (head order) (body order) (legs order) 5000
      @ [Screenshot (screenshot_path w (cfg s) order)]) \<and>
   (\<forall>xs c e ys. new_calls s (snd (screenshot_robot w order s)) = xs @ (c, Some e) # ys
      \<longrightarrow> ys = [] \<and> fst (screenshot_robot w order s) = Inl e) \<and>
   (\<forall>sel st t e.
      (WaitForSelector sel st t, Some e) \<in> set (new_calls s (snd (screenshot_robot w order s)))
      \<longrightarrow> fst (screenshot_robot w order s) = Inl e \<and>
          (\<forall>p x. (Screenshot p, x) \<notin> set (new_calls s (snd (screenshot_robot w order s)))))"
proof -
  let ?P = "preview_calls (head order) (body order) (legs order) default_timeout"
  let ?S = "Screenshot (screenshot_path w (cfg s) order)"
  let ?new = "new_calls s (snd (screenshot_robot w order s))"
  obtain new where new: "new_calls s (snd (perform_all w (?P @ [?S]) s)) = new"
    "prefix (map fst new) (?P @ [?S])"
    "\<forall>xs c e ys. new = xs @ (c, Some e) # ys \<longrightarrow> ys = [] \<and> fst (perform_all w (?P @ [?S]) s) = Inl e"
    using perform_all_new[of w "?P @ [?S]" s] by blast
  have sn: "snd (screenshot_robot w order s) = snd (perform_all w (?P @ [?S]) s)"
    by (simp only: screenshot_robot_all bind_return_snd)
  have fs: "fst (screenshot_robot w order s) = Inl e" if "fst (perform_all w (?P @ [?S]) s) = Inl e" for e
    using that by (simp only: screenshot_robot_all bind_fst_Inl)
  have A: "prefix (map fst ?new) (?P @ [?S])"
    using new(1,2) sn by simp
  have B: "\<forall>xs c e ys. ?new = xs @ (c, Some e) # ys \<longrightarrow> ys = [] \<and> fst (screenshot_robot w order s) = Inl e"
    using new(1,3) sn fs by simp
  have C: "fst (screenshot_robot w order s) = Inl e \<and> (\<forall>p x. (Screenshot p, x) \<notin> set ?new)"
    if m: "(WaitForSelector sel st t, Some e) \<in> set ?new" for sel st t e
  proof -
    from m obtain xs ys where "?new = xs @ (WaitForSelector sel st t, Some e) # ys"
      by (meson split_list)
    with B have r: "fst (screenshot_robot w order s) = Inl e" by blast
    from screenshot_robot_cases[of w order s] show ?thesis
    proof
      assume "\<exists>e. fst (await_robot_preview w (head order) (body order) (legs order) default_timeout s) = Inl e \<and>
        screenshot_robot w order s =
          (Inl e, snd (await_robot_preview w (head order) (body order) (legs order) default_timeout s))"
      then have "?new = new_calls s (snd (perform_all w ?P s))"
        by (auto simp: await_robot_preview_all)
      moreover have "prefix (map fst (new_calls s (snd (perform_all w ?P s)))) ?P"
        using perform_all_new[of w ?P s] by auto
      ultimately have "prefix (map fst ?new) ?P" by simp
      then have "set (map fst ?new) \<subseteq> set ?P"
        by (rule set_mono_prefix)
      then have "\<forall>p x. (Screenshot p, x) \<notin> set ?new"
        using preview_calls_waits by fastforce
      with r show ?thesis by blast
    next
      assume "\<exists>x. ?new = map (\<lambda>c. (c, None)) ?P @ [(?S, x)]"
      then obtain x where "?new = map (\<lambda>c. (c, None)) ?P @ [(?S, x)]" by blast
      with m have False by auto
      then show ?thesis ..
    qed
  qed
  show ?thesis
    using A B C by (simp add: default_timeout_def)
qed

lemmas world_fail_defs = world_fail_at_def timeout_exn_def

text \<open>
  C4, as amended: for every order, \<^verbatim>\<open>screenshot_robot\<close> makes exactly these calls, one
  after the other and up to the first that raises: the wait for the preview container, then
  the wait for each part of the order that is provided (not empty), head, then body, then
  legs, each with the timeout of 5000 ms, and then the screenshot. When every call returns,
  all of them were made, the screenshot last, and its path is returned. When one of the waits
  raises after the waits before it returned (its image never appeared within the 5000 ms), the
  exception is raised, the log ends with that wait and no screenshot call is made; this is
  stated for a wait at any place of the list, and once more for the head.
\<close>

theorem preview_wait_before_screenshot:
  "new_calls s (snd (screenshot_robot w order s)) =
     run_log w (calls s)
       (preview_calls (head order) (body order) (legs order) 5000
        @ [Screenshot (screenshot_path w (cfg s) order)]) \<and>
   fst (screenshot_robot w order s) =
     (case outcome_of (run_log w (calls s)
             (preview_calls (head order) (body order) (legs order) 5000
              @ [Screenshot (screenshot_path w (cfg s) order)])) of
        None \<Rightarrow> Inr (screenshot_path w (cfg s) order)
      | Some e \<Rightarrow> Inl e) \<and>
   preview_calls (head order) (body order) (legs order) 5000 =
     WaitForSelector ''#robot-preview-image'' ''visible'' 5000
     # (if truthy (head order)
        then [WaitForSelector (head_selector (head order)) ''visible'' 5000] else [])
     @ (if truthy (body order)
        then [WaitForSelector (body_selector (body order)) ''visible'' 5000] else [])
     @ (if truthy (legs order)
        then [WaitForSelector (legs_selector (legs order)) ''visible'' 5000] else []) \<and>
   (\<forall>p. fst (screenshot_robot w order s) = Inr p \<longrightarrow>
      p = screenshot_path w (cfg s) order \<and>
      new_calls s (snd (screenshot_robot w order s)) =
        map (\<lambda>c. (c, None))
          (preview_calls (head order) (body order) (legs order) 5000
           @ [Screenshot (screenshot_path w (cfg s) order)])) \<and>
   (\<forall>xs c e ys. new_calls s (snd (screenshot_robot w order s)) = xs @ (c, Some e) # ys
      \<longrightarrow> ys = [] \<and> fst (screenshot_robot w order s) = Inl e) \<and>
   (\<forall>sel st t e.
      (WaitForSelector sel st t, Some e) \<in> set (new_calls s (snd (screenshot_robot w order s)))
      \<longrightarrow> fst (screenshot_robot w order s) = Inl e \<and>
          (\<forall>p x. (Screenshot p, x) \<notin> set (new_calls s (snd (screenshot_robot w order s))))) \<and>
   (\<forall>e. truthy (head order) \<and>
        raises w (calls s) (WaitForSelector ''#robot-preview-image'' ''visible'' 5000) = None \<and>
        raises w (calls s @ [(WaitForSelector ''#robot-preview-image'' ''visible'' 5000, None)])
          (WaitForSelector (head_selector (head order)) ''visible'' 5000) = Some e
      \<longrightarrow> screenshot_robot w order s =
            (Inl e, s\<lparr>calls := calls s @
               [(WaitForSelector ''#robot-preview-image'' ''visible'' 5000, None),
                (WaitForSelector (head_selector (head order)) ''visible'' 5000, Some e)]\<rparr>)) \<and>
   (\<forall>xs c ys e.
      preview_calls (head order) (body order) (legs order) 5000 = xs @ c # ys \<and>
      run_log w (calls s) xs = map (\<lambda>c. (c, None)) xs \<and>
      raises w (calls s @ map (\<lambda>c. (c, None)) xs) c = Some e
      \<longrightarrow> screenshot_robot w order s =
            (Inl e, s\<lparr>calls := calls s @ map (\<lambda>c. (c, None)) xs @ [(c, Some e)]\<rparr>))"
proof -
  let ?cs = "preview_calls (head order) (body order) (legs order) 5000
             @ [Screenshot (screenshot_path w (cfg s) order)]"
  let ?sr = "screenshot_robot w order s"
  have eq: "?sr = ((case outcome_of (run_log w (calls s) ?cs) of
         None \<Rightarrow> Inr (screenshot_path w (cfg s) order) | Some e \<Rightarrow> Inl e),
      s\<lparr>calls := calls s @ run_log w (calls s) ?cs\<rparr>)"
    using screenshot_robot_run_log[of w order s] by (simp add: default_timeout_def)
  have A: "new_calls s (snd ?sr) = run_log w (calls s) ?cs"
    by (simp add: eq)
  have B: "fst ?sr = (case outcome_of (run_log w (calls s) ?cs) of
        None \<Rightarrow> Inr (screenshot_path w (cfg s) order) | Some e \<Rightarrow> Inl e)"
    by (simp add: eq)
  have C: "preview_calls (head order) (body order) (legs order) 5000 =
     WaitForSelector ''#robot-preview-image'' ''visible'' 5000
     # (if truthy (head order)
        then [WaitForSelector (head_selector (head order)) ''visible'' 5000] else [])
     @ (if truthy (body order)
        then [WaitForSelector (body_selector (body order)) ''visible'' 5000] else [])
     @ (if truthy (legs order)
        then [WaitForSelector (legs_selector (legs order)) ''visible'' 5000] else [])"
    by (simp add: preview_calls_def)
  have D: "p = screenshot_path w (cfg s) order \<and>
      new_calls s (snd ?sr) = map (\<lambda>c. (c, None)) ?cs"
    if "fst ?sr = Inr p" for p
  proof -
    from that B have o: "outcome_of (run_log w (calls s) ?cs) = None"
      by (cases "outcome_of (run_log w (calls s) ?cs)") simp_all
    with that B have "p = screenshot_path w (cfg s) order" by simp
    moreover from run_log_all_return[OF o] A have "new_calls s (snd ?sr) = map (\<lambda>c. (c, None)) ?cs"
      by simp
    ultimately show ?thesis by blast
  qed
  have E: "\<forall>xs c e ys. new_calls s (snd ?sr) = xs @ (c, Some e) # ys
      \<longrightarrow> ys = [] \<and> fst ?sr = Inl e"
    and F: "\<forall>sel st t e.
      (WaitForSelector sel st t, Some e) \<in> set (new_calls s (snd ?sr))
      \<longrightarrow> fst ?sr = Inl e \<and> (\<forall>p x. (Screenshot p, x) \<notin> set (new_calls s (snd ?sr)))"
    using preview_wait_bounds[of s w order] by blast+
  have G: "?sr = (Inl e, s\<lparr>calls := calls s @
               [(WaitForSelector ''#robot-preview-image'' ''visible'' 5000, None),
                (WaitForSelector (head_selector (head order)) ''visible'' 5000, Some e)]\<rparr>)"
    if "truthy (head order)"
       "raises w (calls s) (WaitForSelector ''#robot-preview-image'' ''visible'' 5000) = None"
       "raises w (calls s @ [(WaitForSelector ''#robot-preview-image'' ''visible'' 5000, None)])
          (WaitForSelector (head_selector (head order)) ''visible'' 5000) = Some e" for e
    using that by (simp add: eq preview_calls_def outcome_of_def)
  have H: "\<forall>xs c ys e.
      preview_calls (head order) (body order) (legs order) 5000 = xs @ c # ys \<and>
      run_log w (calls s) xs = map (\<lambda>c. (c, None)) xs \<and>
      raises w (calls s @ map (\<lambda>c. (c, None)) xs) c = Some e
      \<longrightarrow> ?sr =
            (Inl e, s\<lparr>calls := calls s @ map (\<lambda>c. (c, None)) xs @ [(c, Some e)]\<rparr>)"
    by (blast intro: screenshot_robot_fail_at)
  show ?thesis
    using A B C D E F G H by blast
qed

text \<open>
  The theorem at a run in which the wait for the head image times out, at a run in which the
  wait for the legs image times out after the three waits before it returned, and at a run in
  which every call returns.
\<close>

theorem preview_wait_before_screenshot_witness:
  "truthy (head order1) \<and>
   raises (world_fail_at [1]) (calls state0)
     (WaitForSelector ''#robot-preview-image'' ''visible'' 5000) = None \<and>
   raises (world_fail_at [1])
     (calls state0 @ [(WaitForSelector ''#robot-preview-image'' ''visible'' 5000, None)])
     (WaitForSelector (head_selector (head order1)) ''visible'' 5000) = Some timeout_exn \<and>
   screenshot_robot (world_fail_at [1]) order1 state0 =
     (Inl timeout_exn,
      state0\<lparr>calls :=
        [(WaitForSelector ''#robot-preview-image'' ''visible'' 5000, None),
         (WaitForSelector ''#robot-preview-image img[src='/heads/1.png']'' ''visible'' 5000,
          Some timeout_exn)]\<rparr>) \<and>
   (\<forall>p x. (Screenshot p, x)
      \<notin> set (new_calls state0 (snd (screenshot_robot (world_fail_at [1]) order1 state0)))) \<and>
   preview_calls (head order1) (body order1) (legs order1) 5000 =
     [WaitForSelector ''#robot-preview-image'' ''visible'' 5000,
      WaitForSelector ''#robot-preview-image img[src='/heads/1.png']'' ''visible'' 5000,
      WaitForSelector ''#robot-preview-image img[src='/bodies/2.png']'' ''visible'' 5000]
     @ WaitForSelector ''#robot-preview-image img[src='/legs/3.png']'' ''visible'' 5000 # [] \<and>
   run_log (world_fail_at [3]) (calls state0)
     [WaitForSelector ''#robot-preview-image'' ''visible'' 5000,
      WaitForSelector ''#robot-preview-image img[src='/heads/1.png']'' ''visible'' 5000,
      WaitForSelector ''#robot-preview-image img[src='/bodies/2.png']'' ''visible'' 5000] =
     map (\<lambda>c. (c, None))
       [WaitForSelector ''#robot-preview-image'' ''visible'' 5000,
        WaitForSelector ''#robot-preview-image img[src='/heads/1.png']'' ''visible'' 5000,
        WaitForSelector ''#robot-preview-image img[src='/bodies/2.png']'' ''visible'' 5000] \<and>
   raises (world_fail_at [3])
     (calls state0 @ map (\<lambda>c. (c, None))
       [WaitForSelector ''#robot-preview-image'' ''visible'' 5000,
        WaitForSelector ''#robot-preview-image img[src='/heads/1.png']'' ''visible'' 5000,
        WaitForSelector ''#robot-preview-image img[src='/bodies/2.png']'' ''visible'' 5000])
     (WaitForSelector ''#robot-preview-image img[src='/legs/3.png']'' ''visible'' 5000)
     = Some timeout_exn \<and>
   screenshot_robot (world_fail_at [3]) order1 state0 =
     (Inl timeout_exn,
      state0\<lparr>calls :=
        [(WaitForSelector ''#robot-preview-image'' ''visible'' 5000, None),
         (WaitForSelector ''#robot-preview-image img[src='/heads/1.png']'' ''visible'' 5000, None),
         (WaitForSelector ''#robot-preview-image img[src='/bodies/2.png']'' ''visible'' 5000, None),
         (WaitForSelector ''#robot-preview-image img[src='/legs/3.png']'' ''visible'' 5000,
          Some timeout_exn)]\<rparr>) \<and>
   fst (screenshot_robot world_ok order1 state0)
     = Inr (Path Slash [''robot'', ''output'', ''screenshots'', ''robot-1.png'']) \<and>
   new_calls state0 (snd (screenshot_robot world_ok order1 state0)) =
     map (\<lambda>c. (c, None))
       [WaitForSelector ''#robot-preview-image'' ''visible'' 5000,
        WaitForSelector ''#robot-preview-image img[src='/heads/1.png']'' ''visible'' 5000,
        WaitForSelector ''#robot-preview-image img[src='/bodies/2.png']'' ''visible'' 5000,
        WaitForSelector ''#robot-preview-image img[src='/legs/3.png']'' ''visible'' 5000,
        Screenshot (Path Slash [''robot'', ''output'', ''screenshots'', ''robot-1.png''])]"
proof -
  let ?v = "world_fail_at [1]"
  let ?u = "world_fail_at [3]"
  let ?c = "WaitForSelector ''#robot-preview-image'' ''visible'' 5000"
  let ?h = "WaitForSelector ''#robot-preview-image img[src='/heads/1.png']'' ''visible'' 5000"
  let ?b = "WaitForSelector ''#robot-preview-image img[src='/bodies/2.png']'' ''visible'' 5000"
  let ?l = "WaitForSelector ''#robot-preview-image img[src='/legs/3.png']'' ''visible'' 5000"
  note T = preview_wait_before_screenshot[of state0 ?v order1]
  have h1: "truthy (head order1)" by (simp add: order1_def)
  have h2: "raises ?v (calls state0) ?c = None"
    by (simp add: world_fail_defs state0_def)
  have h3: "raises ?v (calls state0 @ [(?c, None)])
     (WaitForSelector (head_selector (head order1)) ''visible'' 5000) = Some timeout_exn"
    by (simp add: world_fail_defs state0_def)
  from T h1 h2 h3 have "screenshot_robot ?v order1 state0 =
     (Inl timeout_exn, state0\<lparr>calls := calls state0 @
        [(?c, None),
         (WaitForSelector (head_selector (head order1)) ''visible'' 5000, Some timeout_exn)]\<rparr>)"
    by blast
  then have a: "screenshot_robot ?v order1 state0 =
     (Inl timeout_exn, state0\<lparr>calls := [(?c, None), (?h, Some timeout_exn)]\<rparr>)"
    by (simp add: state0_def order1_def head_selector_def)
  then have m: "(?h, Some timeout_exn)
      \<in> set (new_calls state0 (snd (screenshot_robot ?v order1 state0)))"
    by (simp add: new_calls_def state0_def)
  from T m have b: "\<forall>p x. (Screenshot p, x)
      \<notin> set (new_calls state0 (snd (screenshot_robot ?v order1 state0)))"
    by blast
  note V = preview_wait_before_screenshot[of state0 ?u order1]
  have g1: "preview_calls (head order1) (body order1) (legs order1) 5000 = [?c, ?h, ?b] @ ?l # []"
    by (simp add: preview_calls_def order1_def head_selector_def body_selector_def
        legs_selector_def)
  have g2: "run_log ?u (calls state0) [?c, ?h, ?b] = map (\<lambda>c. (c, None)) [?c, ?h, ?b]"
    by (simp add: world_fail_defs state0_def)
  have g3: "raises ?u (calls state0 @ map (\<lambda>c. (c, None)) [?c, ?h, ?b]) ?l = Some timeout_exn"
    by (simp add: world_fail_defs state0_def)
  from V g1 g2 g3 have "screenshot_robot ?u order1 state0 =
     (Inl timeout_exn, state0\<lparr>calls := calls state0 @ map (\<lambda>c. (c, None)) [?c, ?h, ?b]
        @ [(?l, Some timeout_exn)]\<rparr>)"
    by blast
  then have g4: "screenshot_robot ?u order1 state0 =
     (Inl timeout_exn,
      state0\<lparr>calls := [(?c, None), (?h, None), (?b, None), (?l, Some timeout_exn)]\<rparr>)"
    by (simp add: state0_def)
  note U = preview_wait_before_screenshot[of state0 world_ok order1]
  have c: "fst (screenshot_robot world_ok order1 state0)
     = Inr (Path Slash [''robot'', ''output'', ''screenshots'', ''robot-1.png''])"
    by (simp add: capture_defs)
  from U c have "new_calls state0 (snd (screenshot_robot world_ok order1 state0)) =
        map (\<lambda>c. (c, None))
          (preview_calls (head order1) (body order1) (legs order1) 5000
           @ [Screenshot (screenshot_path world_ok (cfg state0) order1)])"
    by blast
  then have d: "new_calls state0 (snd (screenshot_robot world_ok order1 state0)) =
     map (\<lambda>c. (c, None))
       [?c, ?h, ?b, ?l,
        Screenshot (Path Slash [''robot'', ''output'', ''screenshots'', ''robot-1.png''])]"
    by (simp add: preview_calls_def capture_defs)
  show ?thesis
    apply (intro conjI)
              apply (fact h1)
             apply (fact h2)
            apply (fact h3)
           apply (fact a)
          apply (fact b)
         apply (fact g1)
        apply (fact g2)
       apply (fact g3)
      apply (fact g4)
     apply (fact c)
    apply (fact d)
    done
qed

text \<open>
  C4 as stated fails: it has the wait check each part for every order. For an order whose head
  is the empty string the guard \<^verbatim>\<open>if head:\<close> skips the head: the waits are the container,
  the body and the legs, and the screenshot is taken.
\<close>

theorem preview_wait_counterexample:
  "head order_no_head = PyStr '''' \<and>
   fst (screenshot_robot world_ok order_no_head state0)
     = Inr (Path Slash [''robot'', ''output'', ''screenshots'', ''robot-2.png'']) \<and>
   map fst (new_calls state0 (snd (screenshot_robot world_ok order_no_head state0))) =
     [WaitForSelector ''#robot-preview-image'' ''visible'' 5000,
      WaitForSelector ''#robot-preview-image img[src='/bodies/2.png']'' ''visible'' 5000,
      WaitForSelector ''#robot-preview-image img[src='/legs/3.png']'' ''visible'' 5000,
      Screenshot (Path Slash [''robot'', ''output'', ''screenshots'', ''robot-2.png''])] \<and>
   WaitForSelector (head_selector (head order_no_head)) ''visible'' 5000
     \<notin> set (map fst (new_calls state0 (snd (screenshot_robot world_ok order_no_head state0))))"
  by (simp add: capture_defs)

text \<open>
  Bounds on the calls of \<^verbatim>\<open>await_robot_preview\<close>: each is the container wait or the wait
  of a provided part, no wait is made for a part that is the empty string, and an exception
  raised is that of the last call made.
\<close>

lemma await_robot_preview_bounds:
  "(\<forall>x \<in> set (new_calls s (snd (await_robot_preview w head' body' legs' timeout s))).
      fst x = WaitForSelector ''#robot-preview-image'' ''visible'' timeout \<or>
      (truthy head' \<and> fst x = WaitForSelector (head_selector head') ''visible'' timeout) \<or>
      (truthy body' \<and> fst x = WaitForSelector (body_selector body') ''visible'' timeout) \<or>
      (truthy legs' \<and> fst x = WaitForSelector (legs_selector legs') ''visible'' timeout)) \<and>
   (head' = PyStr '''' \<longrightarrow>
      (\<forall>x. (WaitForSelector (head_selector head') ''visible'' timeout, x)
         \<notin> set (new_calls s (snd (await_robot_preview w head' body' legs' timeout s))))) \<and>
   (body' = PyStr '''' \<longrightarrow>
      (\<forall>x. (WaitForSelector (body_selector body') ''visible'' timeout, x)
         \<notin> set (new_calls s (snd (await_robot_preview w head' body' legs' timeout s))))) \<and>
   (legs' = PyStr '''' \<longrightarrow>
      (\<forall>x. (WaitForSelector (legs_selector legs') ''visible'' timeout, x)
         \<notin> set (new_calls s (snd (await_robot_preview w head' body' legs' timeout s))))) \<and>
   (\<forall>e. fst (await_robot_preview w head' body' legs' timeout s) = Inl e \<longrightarrow>
      (\<exists>xs c. new_calls s (snd (await_robot_preview w head' body' legs' timeout s))
         = xs @ [(c, Some e)]))"
proof -
  let ?P = "preview_calls head' body' legs' timeout"
  let ?new = "new_calls s (snd (await_robot_preview w head' body' legs' timeout s))"
  have p: "prefix (map fst ?new) ?P"
    and e: "\<forall>e. fst (await_robot_preview w head' body' legs' timeout s) = Inl e \<longrightarrow>
      (\<exists>xs c. ?new = xs @ [(c, Some e)])"
    using perform_all_new[of w ?P s] by (auto simp: await_robot_preview_all)
  from p have sub: "set (map fst ?new) \<subseteq> set ?P" by (rule set_mono_prefix)
  have A: "\<forall>x \<in> set ?new.
      fst x = WaitForSelector ''#robot-preview-image'' ''visible'' timeout \<or>
      (truthy head' \<and> fst x = WaitForSelector (head_selector head') ''visible'' timeout) \<or>
      (truthy body' \<and> fst x = WaitForSelector (body_selector body') ''visible'' timeout) \<or>
      (truthy legs' \<and> fst x = WaitForSelector (legs_selector legs') ''visible'' timeout)"
  proof
    fix x assume "x \<in> set ?new"
    then have "fst x \<in> set ?P" using sub by auto
    then show "fst x = WaitForSelector ''#robot-preview-image'' ''visible'' timeout \<or>
      (truthy head' \<and> fst x = WaitForSelector (head_selector head') ''visible'' timeout) \<or>
      (truthy body' \<and> fst x = WaitForSelector (body_selector body') ''visible'' timeout) \<or>
      (truthy legs' \<and> fst x = WaitForSelector (legs_selector legs') ''visible'' timeout)"
      by (auto simp: preview_calls_def split: if_splits)
  qed
  have H: "\<forall>x. (WaitForSelector (head_selector head') ''visible'' timeout, x) \<notin> set ?new"
    if "head' = PyStr ''''"
  proof (intro allI notI)
    fix x assume "(WaitForSelector (head_selector head') ''visible'' timeout, x) \<in> set ?new"
    with A have "WaitForSelector (head_selector head') ''visible'' timeout
          = WaitForSelector ''#robot-preview-image'' ''visible'' timeout \<or>
      (truthy head') \<or>
      WaitForSelector (head_selector head') ''visible'' timeout
          = WaitForSelector (body_selector body') ''visible'' timeout \<or>
      WaitForSelector (head_selector head') ''visible'' timeout
          = WaitForSelector (legs_selector legs') ''visible'' timeout"
      by fastforce
    with that show False
      by (simp add: head_selector_def body_selector_def legs_selector_def)
  qed
  have B: "\<forall>x. (WaitForSelector (body_selector body') ''visible'' timeout, x) \<notin> set ?new"
    if "body' = PyStr ''''"
  proof (intro allI notI)
    fix x assume "(WaitForSelector (body_selector body') ''visible'' timeout, x) \<in> set ?new"
    with A have "WaitForSelector (body_selector body') ''visible'' timeout
          = WaitForSelector ''#robot-preview-image'' ''visible'' timeout \<or>
      WaitForSelector (body_selector body') ''visible'' timeout
          = WaitForSelector (head_selector head') ''visible'' timeout \<or>
      (truthy body') \<or>
      WaitForSelector (body_selector body') ''visible'' timeout
          = WaitForSelector (legs_selector legs') ''visible'' timeout"
      by fastforce
    with that show False
      by (simp add: head_selector_def body_selector_def legs_selector_def)
  qed
  have L: "\<forall>x. (WaitForSelector (legs_selector legs') ''visible'' timeout, x) \<notin> set ?new"
    if "legs' = PyStr ''''"
  proof (intro allI notI)
    fix x assume "(WaitForSelector (legs_selector legs') ''visible'' timeout, x) \<in> set ?new"
    with A have "WaitForSelector (legs_selector legs') ''visible'' timeout
          = WaitForSelector ''#robot-preview-image'' ''visible'' timeout \<or>
      WaitForSelector (legs_selector legs') ''visible'' timeout
          = WaitForSelector (head_selector head') ''visible'' timeout \<or>
      WaitForSelector (legs_selector legs') ''visible'' timeout
          = WaitForSelector (body_selector body') ''visible'' timeout \<or>
      (truthy legs')"
      by fastforce
    with that show False
      by (simp add: head_selector_def body_selector_def legs_selector_def)
  qed
  show ?thesis
    using A H B L e by blast
qed

text \<open>
  C10: \<^verbatim>\<open>await_robot_preview\<close> waits for the preview container and for the parts that are
  provided, and for nothing else. Its calls are exactly the log of the container wait followed
  by the waits of the head, body and legs that are not empty, in that order and up to the first
  that raises; when it returns, all of these waits were made and returned. For a head that is
  the empty string the function is the program without the head wait; for a head, body or legs
  that is the empty string no wait for that part is in the log, and an exception it raises is
  the exception of a wait it made.
\<close>

theorem await_robot_preview_skips_empty:
  "new_calls s (snd (await_robot_preview w head' body' legs' timeout s)) =
     run_log w (calls s)
       (WaitForSelector ''#robot-preview-image'' ''visible'' timeout
        # (if truthy head'
           then [WaitForSelector (head_selector head') ''visible'' timeout] else [])
        @ (if truthy body'
           then [WaitForSelector (body_selector body') ''visible'' timeout] else [])
        @ (if truthy legs'
           then [WaitForSelector (legs_selector legs') ''visible'' timeout] else [])) \<and>
   fst (await_robot_preview w head' body' legs' timeout s) =
     (case outcome_of (new_calls s (snd (await_robot_preview w head' body' legs' timeout s))) of
        None \<Rightarrow> Inr () | Some e \<Rightarrow> Inl e) \<and>
   (fst (await_robot_preview w head' body' legs' timeout s) = Inr () \<longrightarrow>
      new_calls s (snd (await_robot_preview w head' body' legs' timeout s)) =
        map (\<lambda>c. (c, None))
          (WaitForSelector ''#robot-preview-image'' ''visible'' timeout
           # (if truthy head'
              then [WaitForSelector (head_selector head') ''visible'' timeout] else [])
           @ (if truthy body'
              then [WaitForSelector (body_selector body') ''visible'' timeout] else [])
           @ (if truthy legs'
              then [WaitForSelector (legs_selector legs') ''visible'' timeout] else []))) \<and>
   (head' = PyStr '''' \<longrightarrow>
      await_robot_preview w head' body' legs' timeout =
        seq (perform w (WaitForSelector ''#robot-preview-image'' ''visible'' timeout))
       (seq (if truthy body'
             then perform w (WaitForSelector (body_selector body') ''visible'' timeout)
             else return ())
            (if truthy legs'
             then perform w (WaitForSelector (legs_selector legs') ''visible'' timeout)
             else return ()))) \<and>
   (\<forall>x \<in> set (new_calls s (snd (await_robot_preview w head' body' legs' timeout s))).
      fst x = WaitForSelector ''#robot-preview-image'' ''visible'' timeout \<or>
      (truthy head' \<and> fst x = WaitForSelector (head_selector head') ''visible'' timeout) \<or>
      (truthy body' \<and> fst x = WaitForSelector (body_selector body') ''visible'' timeout) \<or>
      (truthy legs' \<and> fst x = WaitForSelector (legs_selector legs') ''visible'' timeout)) \<and>
   (head' = PyStr '''' \<longrightarrow>
      (\<forall>x. (WaitForSelector (head_selector head') ''visible'' timeout, x)
         \<notin> set (new_calls s (snd (await_robot_preview w head' body' legs' timeout s))))) \<and>
   (body' = PyStr '''' \<longrightarrow>
      (\<forall>x. (WaitForSelector (body_selector body') ''visible'' timeout, x)
         \<notin> set (new_calls s (snd (await_robot_preview w head' body' legs' timeout s))))) \<and>
   (legs' = PyStr '''' \<longrightarrow>
      (\<forall>x. (WaitForSelector (legs_selector legs') ''visible'' timeout, x)
         \<notin> set (new_calls s (snd (await_robot_preview w head' body' legs' timeout s))))) \<and>
   (\<forall>e. fst (await_robot_preview w head' body' legs' timeout s) = Inl e \<longrightarrow>
      (\<exists>xs c. new_calls s (snd (await_robot_preview w head' body' legs' timeout s))
         = xs @ [(c, Some e)]))"
proof -
  let ?a = "await_robot_preview w head' body' legs' timeout s"
  let ?P = "preview_calls head' body' legs' timeout"
  have P: "?P = WaitForSelector ''#robot-preview-image'' ''visible'' timeout
        # (if truthy head'
           then [WaitForSelector (head_selector head') ''visible'' timeout] else [])
        @ (if truthy body'
           then [WaitForSelector (body_selector body') ''visible'' timeout] else [])
        @ (if truthy legs'
           then [WaitForSelector (legs_selector legs') ''visible'' timeout] else [])"
    by (simp add: preview_calls_def)
  have eq: "?a = ((case outcome_of (run_log w (calls s) ?P) of None \<Rightarrow> Inr () | Some e \<Rightarrow> Inl e),
      s\<lparr>calls := calls s @ run_log w (calls s) ?P\<rparr>)"
    by (rule await_robot_preview_run_log)
  have A: "new_calls s (snd ?a) = run_log w (calls s) ?P" by (simp add: eq)
  have B: "fst ?a = (case outcome_of (new_calls s (snd ?a)) of None \<Rightarrow> Inr () | Some e \<Rightarrow> Inl e)"
    by (simp add: eq)
  have C: "new_calls s (snd ?a) = map (\<lambda>c. (c, None)) ?P" if "fst ?a = Inr ()"
  proof -
    from that B A have "outcome_of (run_log w (calls s) ?P) = None"
      by (cases "outcome_of (run_log w (calls s) ?P)") simp_all
    from run_log_all_return[OF this] A show ?thesis by simp
  qed
  have D: "await_robot_preview w head' body' legs' timeout =
        seq (perform w (WaitForSelector ''#robot-preview-image'' ''visible'' timeout))
       (seq (if truthy body'
             then perform w (WaitForSelector (body_selector body') ''visible'' timeout)
             else return ())
            (if truthy legs'
             then perform w (WaitForSelector (legs_selector legs') ''visible'' timeout)
             else return ()))"
    if "head' = PyStr ''''"
    using that by (simp add: await_robot_preview_def return_seq)
  note old = await_robot_preview_bounds[of s w head' body' legs' timeout]
  show ?thesis
    using A[unfolded P] B C[unfolded P] D old by blast
qed

text \<open>
  The theorem at an order whose head is the empty string, and at an order with all three parts.
\<close>

theorem await_robot_preview_skips_empty_witness:
  "head order_no_head = PyStr '''' \<and>
   fst (await_robot_preview world_ok (head order_no_head) (body order_no_head)
          (legs order_no_head) 5000 state0) = Inr () \<and>
   new_calls state0 (snd (await_robot_preview world_ok (head order_no_head) (body order_no_head)
          (legs order_no_head) 5000 state0)) =
     [(WaitForSelector ''#robot-preview-image'' ''visible'' 5000, None),
      (WaitForSelector ''#robot-preview-image img[src='/bodies/2.png']'' ''visible'' 5000, None),
      (WaitForSelector ''#robot-preview-image img[src='/legs/3.png']'' ''visible'' 5000, None)] \<and>
   (\<forall>x. (WaitForSelector (head_selector (head order_no_head)) ''visible'' 5000, x)
      \<notin> set (new_calls state0 (snd (await_robot_preview world_ok (head order_no_head)
              (body order_no_head) (legs order_no_head) 5000 state0)))) \<and>
   fst (await_robot_preview world_ok (head order1) (body order1) (legs order1) 5000 state0)
     = Inr () \<and>
   new_calls state0 (snd (await_robot_preview world_ok (head order1) (body order1)
          (legs order1) 5000 state0)) =
     [(WaitForSelector ''#robot-preview-image'' ''visible'' 5000, None),
      (WaitForSelector ''#robot-preview-image img[src='/heads/1.png']'' ''visible'' 5000, None),
      (WaitForSelector ''#robot-preview-image img[src='/bodies/2.png']'' ''visible'' 5000, None),
      (WaitForSelector ''#robot-preview-image img[src='/legs/3.png']'' ''visible'' 5000, None)]"
proof -
  let ?a = "await_robot_preview world_ok (head order_no_head) (body order_no_head)
          (legs order_no_head) 5000 state0"
  note T = await_robot_preview_skips_empty[of state0 world_ok "head order_no_head"
      "body order_no_head" "legs order_no_head" 5000]
  have h: "head order_no_head = PyStr ''''" by (simp add: order_no_head_def)
  have a: "fst ?a = Inr ()"
    by (simp add: capture_defs)
  from T a have "new_calls state0 (snd ?a) =
        map (\<lambda>c. (c, None))
          (WaitForSelector ''#robot-preview-image'' ''visible'' 5000
           # (if truthy (head order_no_head)
              then [WaitForSelector (head_selector (head order_no_head)) ''visible'' 5000] else [])
           @ (if truthy (body order_no_head)
              then [WaitForSelector (body_selector (body order_no_head)) ''visible'' 5000] else [])
           @ (if truthy (legs order_no_head)
              then [WaitForSelector (legs_selector (legs order_no_head)) ''visible'' 5000] else []))"
    by blast
  then have b: "new_calls state0 (snd ?a) =
     [(WaitForSelector ''#robot-preview-image'' ''visible'' 5000, None),
      (WaitForSelector ''#robot-preview-image img[src='/bodies/2.png']'' ''visible'' 5000, None),
      (WaitForSelector ''#robot-preview-image img[src='/legs/3.png']'' ''visible'' 5000, None)]"
    by (simp add: order_no_head_def body_selector_def legs_selector_def)
  from T h have c: "\<forall>x. (WaitForSelector (head_selector (head order_no_head)) ''visible'' 5000, x)
      \<notin> set (new_calls state0 (snd ?a))"
    by blast
  let ?b = "await_robot_preview world_ok (head order1) (body order1) (legs order1) 5000 state0"
  note U = await_robot_preview_skips_empty[of state0 world_ok "head order1"
      "body order1" "legs order1" 5000]
  have d: "fst ?b = Inr ()"
    by (simp add: capture_defs)
  from U d have "new_calls state0 (snd ?b) =
        map (\<lambda>c. (c, None))
          (WaitForSelector ''#robot-preview-image'' ''visible'' 5000
           # (if truthy (head order1)
              then [WaitForSelector (head_selector (head order1)) ''visible'' 5000] else [])
           @ (if truthy (body order1)
              then [WaitForSelector (body_selector (body order1)) ''visible'' 5000] else [])
           @ (if truthy (legs order1)
              then [WaitForSelector (legs_selector (legs order1)) ''visible'' 5000] else []))"
    by blast
  then have e: "new_calls state0 (snd ?b) =
     [(WaitForSelector ''#robot-preview-image'' ''visible'' 5000, None),
      (WaitForSelector ''#robot-preview-image img[src='/heads/1.png']'' ''visible'' 5000, None),
      (WaitForSelector ''#robot-preview-image img[src='/bodies/2.png']'' ''visible'' 5000, None),
      (WaitForSelector ''#robot-preview-image img[src='/legs/3.png']'' ''visible'' 5000, None)]"
    by (simp add: order1_def head_selector_def body_selector_def legs_selector_def)
  show ?thesis using h a b c d e by blast
qed

section \<open>Failures outside the submit attempt, and the Config object\<close>

lemma orderlyI:
  assumes "\<And>s. cfg (snd (f s)) = cfg s"
    and "\<And>s. \<exists>new. calls (snd (f s)) = calls s @ new \<and>
           (\<forall>xs c e ys. new = xs @ (c, Some e) # ys \<and> \<not> submit_call c
              \<longrightarrow> ys = [] \<and> fst (f s) = Inl e)"
  shows "orderly f"
  using assms unfolding orderly_def by blast

lemma orderlyD:
  assumes "orderly f" "f s = (r, s1)"
  shows "cfg s1 = cfg s \<and> (\<exists>new. calls s1 = calls s @ new \<and>
           (\<forall>xs c e ys. new = xs @ (c, Some e) # ys \<and> \<not> submit_call c
              \<longrightarrow> ys = [] \<and> r = Inl e))"
proof -
  from assms(1) have "cfg (snd (f s)) = cfg s \<and> (\<exists>new. calls (snd (f s)) = calls s @ new \<and>
           (\<forall>xs c e ys. new = xs @ (c, Some e) # ys \<and> \<not> submit_call c
              \<longrightarrow> ys = [] \<and> fst (f s) = Inl e))"
    unfolding orderly_def by blast
  then show ?thesis by (simp add: assms(2))
qed

lemma orderly_return: "orderly (return x)"
  by (rule orderlyI) (simp_all add: return_def)

lemma orderly_raise: "orderly (raise e)"
  by (rule orderlyI) (simp_all add: raise_def)

lemma orderly_perform: "orderly (perform w c)"
proof (rule orderlyI)
  fix s show "cfg (snd (perform w c s)) = cfg s" by (simp add: perform_snd)
  show "\<exists>new. calls (snd (perform w c s)) = calls s @ new \<and>
           (\<forall>xs c' e ys. new = xs @ (c', Some e) # ys \<and> \<not> submit_call c'
              \<longrightarrow> ys = [] \<and> fst (perform w c s) = Inl e)"
    by (rule exI[of _ "[(c, raises w (calls s) c)]"])
       (auto simp: perform_snd perform_fst append_eq_Cons_conv Cons_eq_append_conv)
qed

lemma orderly_bind:
  assumes f: "orderly f" and g: "\<And>x. orderly (g x)"
  shows "orderly (bind f g)"
proof (rule orderlyI)
  fix s
  obtain r s1 where fs: "f s = (r, s1)" by (cases "f s")
  from orderlyD[OF f fs] obtain n1 where c1: "cfg s1 = cfg s" and l1: "calls s1 = calls s @ n1"
    and p1: "\<forall>xs c e ys. n1 = xs @ (c, Some e) # ys \<and> \<not> submit_call c \<longrightarrow> ys = [] \<and> r = Inl e"
    by blast
  show "cfg (snd (bind f g s)) = cfg s"
  proof (cases r)
    case (Inl e)
    with fs c1 show ?thesis by (simp add: bind_def)
  next
    case (Inr x)
    obtain r2 s2 where gs: "g x s1 = (r2, s2)" by (cases "g x s1")
    from orderlyD[OF g gs] have "cfg s2 = cfg s1" by blast
    with fs Inr gs c1 show ?thesis by (simp add: bind_def)
  qed
  show "\<exists>new. calls (snd (bind f g s)) = calls s @ new \<and>
           (\<forall>xs c e ys. new = xs @ (c, Some e) # ys \<and> \<not> submit_call c
              \<longrightarrow> ys = [] \<and> fst (bind f g s) = Inl e)"
  proof (cases r)
    case (Inl e)
    with fs have "bind f g s = (Inl e, s1)" by (simp add: bind_def)
    with l1 p1 Inl show ?thesis by (intro exI[of _ n1]) simp
  next
    case (Inr x)
    obtain r2 s2 where gs: "g x s1 = (r2, s2)" by (cases "g x s1")
    from orderlyD[OF g gs] obtain n2 where l2: "calls s2 = calls s1 @ n2"
      and p2: "\<forall>xs c e ys. n2 = xs @ (c, Some e) # ys \<and> \<not> submit_call c \<longrightarrow> ys = [] \<and> r2 = Inl e"
      by blast
    from fs Inr gs have b: "bind f g s = (r2, s2)" by (simp add: bind_def)
    have "ys = [] \<and> r2 = Inl e"
      if eq: "n1 @ n2 = xs @ (c, Some e) # ys" and ns: "\<not> submit_call c" for xs c e ys
    proof -
      from eq obtain us where
        "(n1 = xs @ us \<and> us @ n2 = (c, Some e) # ys) \<or> (n1 @ us = xs \<and> n2 = us @ (c, Some e) # ys)"
        by (auto simp: append_eq_append_conv2)
      then show ?thesis
      proof
        assume a: "n1 = xs @ us \<and> us @ n2 = (c, Some e) # ys"
        show ?thesis
        proof (cases us)
          case Nil
          with a have "n2 = [] @ (c, Some e) # ys" by simp
          with p2 ns show ?thesis by blast
        next
          case (Cons u us')
          with a have "n1 = xs @ (c, Some e) # us'" by simp
          with p1 ns have "r = Inl e" by blast
          with Inr show ?thesis by simp
        qed
      next
        assume "n1 @ us = xs \<and> n2 = us @ (c, Some e) # ys"
        with p2 ns show ?thesis by blast
      qed
    qed
    with b l1 l2 show ?thesis by (intro exI[of _ "n1 @ n2"]) simp
  qed
qed

lemma orderly_seq: "orderly f \<Longrightarrow> orderly g \<Longrightarrow> orderly (seq f g)"
  unfolding seq_def by (rule orderly_bind)

lemma orderly_with_config: "(\<And>c. orderly (f c)) \<Longrightarrow> orderly (with_config f)"
  unfolding orderly_def with_config_def by blast

lemma orderly_pointwise: "(\<And>s. \<exists>g. orderly g \<and> f s = g s) \<Longrightarrow> orderly f"
  unfolding orderly_def by metis

lemma orderly_perform_all: "orderly (perform_all w cs)"
  by (induction cs) (simp_all add: orderly_return orderly_seq orderly_perform)

lemma orderly_submit_order: "orderly (submit_order w)"
proof (rule orderlyI)
  fix s
  obtain n where n: "snd (submit_order w s) = after_attempts w n s"
    using submit_bound by blast
  obtain new where new: "after_attempts w n s = s\<lparr>calls := calls s @ new\<rparr>"
    "\<forall>x \<in> set new. submit_call (fst x)"
    using after_attempts_log[of w n s] by blast
  show "cfg (snd (submit_order w s)) = cfg s" by (simp add: n after_attempts_cfg)
  have "\<forall>xs c e ys. new = xs @ (c, Some e) # ys \<and> \<not> submit_call c
              \<longrightarrow> ys = [] \<and> fst (submit_order w s) = Inl e"
    using new(2) by auto
  then show "\<exists>new. calls (snd (submit_order w s)) = calls s @ new \<and>
           (\<forall>xs c e ys. new = xs @ (c, Some e) # ys \<and> \<not> submit_call c
              \<longrightarrow> ys = [] \<and> fst (submit_order w s) = Inl e)"
    using n new(1) by (intro exI[of _ new]) simp
qed

lemma orderly_fill_order_form: "orderly (fill_order_form w order)"
  by (simp add: fill_order_form_all orderly_perform_all)

lemma orderly_store_receipt_as_pdf: "orderly (store_receipt_as_pdf w order)"
  by (rule orderly_pointwise) (metis store_receipt_as_pdf_all orderly_perform_all)

lemma orderly_await_robot_preview: "orderly (await_robot_preview w h b l t)"
  by (simp add: await_robot_preview_all orderly_perform_all)

lemma orderly_screenshot_robot: "orderly (screenshot_robot w order)"
  unfolding screenshot_robot_def Let_def
  by (intro orderly_with_config orderly_seq orderly_await_robot_preview orderly_perform orderly_return)

lemma orderly_go_back_to_order_form: "orderly (go_back_to_order_form w)"
  by (simp add: go_back_to_order_form_def orderly_perform)

lemma orderly_close_annoying_modal: "orderly (close_annoying_modal w)"
  by (simp add: close_annoying_modal_def orderly_perform)

lemma orderly_fill_and_submit_sales_form: "orderly (fill_and_submit_sales_form w orders)"
  by (induction orders)
     (simp_all add: orderly_return orderly_seq orderly_fill_order_form orderly_submit_order
        orderly_store_receipt_as_pdf orderly_go_back_to_order_form orderly_close_annoying_modal)

lemma orderly_open_robot_order_website: "orderly (open_robot_order_website w)"
  unfolding open_robot_order_website_def by (intro orderly_with_config orderly_perform)

lemma orderly_archive_receipts: "orderly (archive_receipts w)"
  unfolding archive_receipts_def by (intro orderly_with_config orderly_perform)

lemma orderly_download_file: "orderly (download_file w url file_name)"
  by (simp add: download_file_def orderly_perform)

lemma orderly_read_table_from_csv: "orderly (read_table_from_csv w file_name)"
proof (rule orderly_pointwise)
  fix s
  show "\<exists>g. orderly g \<and> read_table_from_csv w file_name s = g s"
    by (rule exI[of _ "bind (perform w (ReadTableFromCsv file_name))
         (\<lambda>_. return (table_of w (calls s) file_name))"])
       (simp add: read_table_from_csv_def orderly_bind orderly_perform orderly_return)
qed

lemma orderly_get_orders: "orderly (get_orders w)"
  unfolding get_orders_def
  by (intro orderly_with_config orderly_bind orderly_read_table_from_csv)
     (simp add: orderly_raise orderly_return split: sum.splits)

lemma order_robots_after_config:
  "order_robots_from_RobotSpareBin w s = after_config w (s\<lparr>cfg := Config_new\<rparr>)"
  by (simp add: order_robots_from_RobotSpareBin_def after_config_def new_config_def seq_def bind_def)

lemma orderly_after_config: "orderly (after_config w)"
  unfolding after_config_def
  by (intro orderly_seq orderly_bind orderly_with_config orderly_download_file orderly_get_orders
      orderly_open_robot_order_website orderly_close_annoying_modal
      orderly_fill_and_submit_sales_form orderly_archive_receipts)

lemma orderly_new_calls:
  assumes "orderly f"
  shows "cfg (snd (f s)) = cfg s \<and>
    (\<forall>xs c e ys. new_calls s (snd (f s)) = xs @ (c, Some e) # ys \<and> c \<noteq> order_click \<and> c \<noteq> receipt_wait
       \<longrightarrow> ys = [] \<and> fst (f s) = Inl e)"
proof -
  from assms obtain new where "cfg (snd (f s)) = cfg s" "calls (snd (f s)) = calls s @ new"
    "\<forall>xs c e ys. new = xs @ (c, Some e) # ys \<and> \<not> submit_call c \<longrightarrow> ys = [] \<and> fst (f s) = Inl e"
    unfolding orderly_def by blast
  then show ?thesis by (simp add: new_calls_def submit_call_def)
qed

text \<open>
  C7: a call that raises, other than the click and the wait of a submit attempt, is the last
  call of the batch \<^verbatim>\<open>fill_and_submit_sales_form\<close> and of the whole run
  \<^verbatim>\<open>order_robots_from_RobotSpareBin\<close>, and its exception is the outcome: nothing is made
  after it, so it is not retried and the orders that remain are not processed. The dismissal of
  the modal, the click on \<^verbatim>\<open>Order another robot\<close> and the preview waits are such calls.
\<close>

theorem other_failures_not_retried:
  "(\<forall>xs c e ys.
      new_calls s (snd (fill_and_submit_sales_form w orders s)) = xs @ (c, Some e) # ys \<and>
      c \<noteq> order_click \<and> c \<noteq> receipt_wait
      \<longrightarrow> ys = [] \<and> fst (fill_and_submit_sales_form w orders s) = Inl e) \<and>
   (\<forall>xs c e ys.
      new_calls s (snd (order_robots_from_RobotSpareBin w s)) = xs @ (c, Some e) # ys \<and>
      c \<noteq> order_click \<and> c \<noteq> receipt_wait
      \<longrightarrow> ys = [] \<and> fst (order_robots_from_RobotSpareBin w s) = Inl e) \<and>
   Click ''button:text('OK')'' None \<noteq> order_click \<and>
   Click ''button:text('OK')'' None \<noteq> receipt_wait \<and>
   Click ''button:text('Order another robot')'' (Some 1000) \<noteq> order_click \<and>
   Click ''button:text('Order another robot')'' (Some 1000) \<noteq> receipt_wait \<and>
   (\<forall>sel st. WaitForSelector sel st default_timeout \<noteq> order_click \<and>
             WaitForSelector sel st default_timeout \<noteq> receipt_wait)"
proof -
  have A: "\<forall>xs c e ys.
      new_calls s (snd (fill_and_submit_sales_form w orders s)) = xs @ (c, Some e) # ys \<and>
      c \<noteq> order_click \<and> c \<noteq> receipt_wait
      \<longrightarrow> ys = [] \<and> fst (fill_and_submit_sales_form w orders s) = Inl e"
    using orderly_new_calls[OF orderly_fill_and_submit_sales_form] by blast
  have B: "\<forall>xs c e ys.
      new_calls s (snd (order_robots_from_RobotSpareBin w s)) = xs @ (c, Some e) # ys \<and>
      c \<noteq> order_click \<and> c \<noteq> receipt_wait
      \<longrightarrow> ys = [] \<and> fst (order_robots_from_RobotSpareBin w s) = Inl e"
  proof -
    have "new_calls s (snd (order_robots_from_RobotSpareBin w s))
        = new_calls (s\<lparr>cfg := Config_new\<rparr>) (snd (after_config w (s\<lparr>cfg := Config_new\<rparr>)))"
      by (simp add: order_robots_after_config new_calls_def)
    then show ?thesis
      using orderly_new_calls[OF orderly_after_config, of w "s\<lparr>cfg := Config_new\<rparr>"]
      by (simp only: order_robots_after_config) blast
  qed
  have C: "Click ''button:text('OK')'' None \<noteq> order_click \<and>
   Click ''button:text('OK')'' None \<noteq> receipt_wait \<and>
   Click ''button:text('Order another robot')'' (Some 1000) \<noteq> order_click \<and>
   Click ''button:text('Order another robot')'' (Some 1000) \<noteq> receipt_wait \<and>
   (\<forall>sel st. WaitForSelector sel st default_timeout \<noteq> order_click \<and>
             WaitForSelector sel st default_timeout \<noteq> receipt_wait)"
    by (simp add: order_click_def receipt_wait_def default_timeout_def)
  show ?thesis using A B C by blast
qed

text \<open>
  C9: no operation of the workflow changes the \<^verbatim>\<open>Config\<close> object: every library call and
  every function of the file returns a state with the object it was given, and the run ends
  with the object as \<^verbatim>\<open>Config()\<close> built it.
\<close>

theorem config_read_only:
  "cfg (snd (perform w c s)) = cfg s \<and>
   cfg (snd (download_file w url file_name s)) = cfg s \<and>
   cfg (snd (get_orders w s)) = cfg s \<and>
   cfg (snd (open_robot_order_website w s)) = cfg s \<and>
   cfg (snd (close_annoying_modal w s)) = cfg s \<and>
   cfg (snd (fill_order_form w order s)) = cfg s \<and>
   cfg (snd (submit_order w s)) = cfg s \<and>
   cfg (snd (await_robot_preview w head' body' legs' timeout s)) = cfg s \<and>
   cfg (snd (screenshot_robot w order s)) = cfg s \<and>
   cfg (snd (embed_screenshot_to_receipt w screenshot_file pdf_file s)) = cfg s \<and>
   cfg (snd (store_receipt_as_pdf w order s)) = cfg s \<and>
   cfg (snd (go_back_to_order_form w s)) = cfg s \<and>
   cfg (snd (fill_and_submit_sales_form w orders s)) = cfg s \<and>
   cfg (snd (archive_receipts w s)) = cfg s \<and>
   cfg (snd (order_robots_from_RobotSpareBin w s)) = Config_new"
proof -
  have last: "cfg (snd (order_robots_from_RobotSpareBin w s)) = Config_new"
    using orderly_new_calls[OF orderly_after_config, of w "s\<lparr>cfg := Config_new\<rparr>"]
    by (simp add: order_robots_after_config)
  have emb: "cfg (snd (embed_screenshot_to_receipt w screenshot_file pdf_file s)) = cfg s"
    by (simp add: embed_screenshot_to_receipt_def perform_snd)
  show ?thesis
    using last emb
      orderly_new_calls[OF orderly_perform, of w c s]
      orderly_new_calls[OF orderly_download_file, of w url file_name s]
      orderly_new_calls[OF orderly_get_orders, of w s]
      orderly_new_calls[OF orderly_open_robot_order_website, of w s]
      orderly_new_calls[OF orderly_close_annoying_modal, of w s]
      orderly_new_calls[OF orderly_fill_order_form, of w order s]
      orderly_new_calls[OF orderly_submit_order, of w s]
      orderly_new_calls[OF orderly_await_robot_preview, of w head' body' legs' timeout s]
      orderly_new_calls[OF orderly_screenshot_robot, of w order s]
      orderly_new_calls[OF orderly_store_receipt_as_pdf, of w order s]
      orderly_new_calls[OF orderly_go_back_to_order_form, of w s]
      orderly_new_calls[OF orderly_fill_and_submit_sales_form, of w orders s]
      orderly_new_calls[OF orderly_archive_receipts, of w s]
    by blast
qed

lemmas batch_defs = fill_order_form_def submit_order_def try_except_def click_order_def
  wait_for_receipt_def go_back_to_order_form_def close_annoying_modal_def capture_defs
  world_fail_defs fill_calls_def capture_calls_def preview_calls_def order_click_def
  receipt_wait_def

text \<open>
  The theorem at a batch of two orders in which the click on \<^verbatim>\<open>Order another robot\<close> of the
  first order times out, and at a run in which the first dismissal of the modal times out.
\<close>

theorem other_failures_not_retried_witness:
  "new_calls state0
     (snd (fill_and_submit_sales_form (world_fail_at [14]) [order1, order_no_head] state0)) =
     map (\<lambda>c. (c, None))
       (fill_calls order1 @ [order_click, receipt_wait] @
        capture_calls (world_fail_at [14]) Config_new order1 ''<p>receipt</p>'')
     @ (Click ''button:text('Order another robot')'' (Some 1000), Some timeout_exn) # [] \<and>
   Click ''button:text('Order another robot')'' (Some 1000) \<noteq> order_click \<and>
   Click ''button:text('Order another robot')'' (Some 1000) \<noteq> receipt_wait \<and>
   fst (fill_and_submit_sales_form (world_fail_at [14]) [order1, order_no_head] state0)
     = Inl timeout_exn \<and>
   new_calls state0 (snd (order_robots_from_RobotSpareBin (world_fail_at [3]) state0)) =
     [(HttpDownload ''https://robotsparebinindustries.com/orders.csv'' ''orders.csv'' True, None),
      (ReadTableFromCsv ''orders.csv'', None),
      (Goto ''https://robotsparebinindustries.com/#robot-order'', None)]
     @ (Click ''button:text('OK')'' None, Some timeout_exn) # [] \<and>
   fst (order_robots_from_RobotSpareBin (world_fail_at [3]) state0) = Inl timeout_exn"
proof -
  let ?w = "world_fail_at [14]"
  let ?another = "Click ''button:text('Order another robot')'' (Some 1000)"
  have a: "new_calls state0 (snd (fill_and_submit_sales_form ?w [order1, order_no_head] state0)) =
     map (\<lambda>c. (c, None))
       (fill_calls order1 @ [order_click, receipt_wait] @
        capture_calls ?w Config_new order1 ''<p>receipt</p>'')
     @ (?another, Some timeout_exn) # []"
    by (simp add: batch_defs)
  have n: "?another \<noteq> order_click \<and> ?another \<noteq> receipt_wait"
    by (simp add: order_click_def receipt_wait_def)
  from other_failures_not_retried[of state0 ?w "[order1, order_no_head]"] a n
  have b: "fst (fill_and_submit_sales_form ?w [order1, order_no_head] state0) = Inl timeout_exn"
    by blast
  let ?v = "world_fail_at [3]"
  have c: "new_calls state0 (snd (order_robots_from_RobotSpareBin ?v state0)) =
     [(HttpDownload ''https://robotsparebinindustries.com/orders.csv'' ''orders.csv'' True, None),
      (ReadTableFromCsv ''orders.csv'', None),
      (Goto ''https://robotsparebinindustries.com/#robot-order'', None)]
     @ (Click ''button:text('OK')'' None, Some timeout_exn) # []"
    by (simp add: order_robots_from_RobotSpareBin_def new_config_def download_file_def
        get_orders_def read_table_from_csv_def open_robot_order_website_def two_rows_def
        make_order_def getitem_def row_of_def raise_def batch_defs)
  have m: "Click ''button:text('OK')'' None \<noteq> order_click \<and>
           Click ''button:text('OK')'' None \<noteq> receipt_wait"
    by (simp add: order_click_def receipt_wait_def)
  from other_failures_not_retried[of state0 ?v "[]"] c m
  have d: "fst (order_robots_from_RobotSpareBin ?v state0) = Inl timeout_exn"
    by blast
  show ?thesis using a n b c d by blast
qed

section \<open>Order ingestion\<close>

lemma make_order_ok:
  "set expected_columns \<subseteq> set (columns t) \<Longrightarrow> make_order t r = Inr (order_of_row r)"
  by (simp add: make_order_def getitem_def expected_columns_def order_of_row_def)

lemma make_order_missing:
  "\<not> set expected_columns \<subseteq> set (columns t) \<Longrightarrow>
   \<exists>k \<in> set expected_columns. k \<notin> set (columns t) \<and> make_order t r = Inl (key_error k)"
  by (auto simp: make_order_def getitem_def expected_columns_def key_error_def)

lemma orders_of_rows_ok:
  "set expected_columns \<subseteq> set (columns t) \<Longrightarrow> orders_of_rows t rs = Inr (map order_of_row rs)"
  by (induction rs) (simp_all add: make_order_ok)

lemma orders_of_rows_missing:
  "\<not> set expected_columns \<subseteq> set (columns t) \<Longrightarrow> rs \<noteq> [] \<Longrightarrow>
   \<exists>k \<in> set expected_columns. k \<notin> set (columns t) \<and> orders_of_rows t rs = Inl (key_error k)"
proof (cases rs)
  case Nil
  then show "rs \<noteq> [] \<Longrightarrow> ?thesis" by simp
next
  case (Cons r rs')
  assume "\<not> set expected_columns \<subseteq> set (columns t)"
  from make_order_missing[OF this, of r] Cons show ?thesis by auto
qed

lemma orders_of_rows_Inr:
  "orders_of_rows t rs = Inr os \<Longrightarrow> os = map order_of_row rs"
proof (cases "set expected_columns \<subseteq> set (columns t)")
  case True
  then show "orders_of_rows t rs = Inr os \<Longrightarrow> ?thesis" by (simp add: orders_of_rows_ok)
next
  case False
  assume a: "orders_of_rows t rs = Inr os"
  show ?thesis
  proof (cases rs)
    case Nil
    with a show ?thesis by simp
  next
    case (Cons r rs')
    then have "rs \<noteq> []" by simp
    from orders_of_rows_missing[OF False this] a show ?thesis by auto
  qed
qed

lemma get_orders_unfold:
  "get_orders w s =
     (case raises w (calls s) (ReadTableFromCsv (orders_file_name (cfg s))) of
        Some e \<Rightarrow> (Inl e, s\<lparr>calls := calls s @ [(ReadTableFromCsv (orders_file_name (cfg s)), Some e)]\<rparr>)
      | None \<Rightarrow>
         (case orders_of_rows (table_of w (calls s) (orders_file_name (cfg s)))
                 (rows (table_of w (calls s) (orders_file_name (cfg s)))) of
            Inl e \<Rightarrow> (Inl e, s\<lparr>calls := calls s @ [(ReadTableFromCsv (orders_file_name (cfg s)), None)]\<rparr>)
          | Inr orders \<Rightarrow> (Inr orders, s\<lparr>calls := calls s @ [(ReadTableFromCsv (orders_file_name (cfg s)), None)]\<rparr>)))"
  by (simp add: get_orders_def with_config_def read_table_from_csv_def bind_def perform_def
      return_def raise_def split: option.splits sum.splits)

lemma after_config_download:
  "after_config w s =
     (case raises w (calls s) (HttpDownload (orders_file_url (cfg s)) (orders_file_name (cfg s)) True) of
        Some e \<Rightarrow> (Inl e, s\<lparr>calls := calls s
           @ [(HttpDownload (orders_file_url (cfg s)) (orders_file_name (cfg s)) True, Some e)]\<rparr>)
      | None \<Rightarrow>
          bind (get_orders w) (\<lambda>orders.
            seq (open_robot_order_website w)
           (seq (close_annoying_modal w)
           (seq (fill_and_submit_sales_form w orders)
                (archive_receipts w))))
            (s\<lparr>calls := calls s
               @ [(HttpDownload (orders_file_url (cfg s)) (orders_file_name (cfg s)) True, None)]\<rparr>))"
  by (simp add: after_config_def with_config_def download_file_def seq_def bind_def perform_def
      split: option.splits)

text \<open>
  C6, as amended: \<^verbatim>\<open>download_file\<close> makes one download call, with \<^verbatim>\<open>overwrite=True\<close>; when
  the download raises, the run ends with that exception and nothing else is done; when the
  table reader raises, \<^verbatim>\<open>get_orders\<close> raises the same; when the table has the five expected
  columns, \<^verbatim>\<open>get_orders\<close> returns one order per row, in the order of the rows; when an
  expected column is missing and the table has at least one row, \<^verbatim>\<open>get_orders\<close> raises a
  \<^verbatim>\<open>KeyError\<close> for a missing column and returns no orders; when the table has no rows,
  \<^verbatim>\<open>get_orders\<close> returns the empty list whatever the columns are; and an exception of
  \<^verbatim>\<open>get_orders\<close> ends the run.
\<close>

theorem order_ingestion:
  "new_calls s (snd (download_file w url file_name s)) =
     [(HttpDownload url file_name True, raises w (calls s) (HttpDownload url file_name True))] \<and>
   (\<forall>e. raises w (calls s)
          (HttpDownload (orders_file_url Config_new) (orders_file_name Config_new) True) = Some e
      \<longrightarrow> order_robots_from_RobotSpareBin w s =
            (Inl e, s\<lparr>calls := calls s @
               [(HttpDownload (orders_file_url Config_new) (orders_file_name Config_new) True,
                 Some e)],
               cfg := Config_new\<rparr>)) \<and>
   (\<forall>e. raises w (calls s) (ReadTableFromCsv (orders_file_name (cfg s))) = Some e
      \<longrightarrow> get_orders w s =
            (Inl e, s\<lparr>calls := calls s @
               [(ReadTableFromCsv (orders_file_name (cfg s)), Some e)]\<rparr>)) \<and>
   (raises w (calls s) (ReadTableFromCsv (orders_file_name (cfg s))) = None \<and>
    set expected_columns \<subseteq> set (columns (table_of w (calls s) (orders_file_name (cfg s))))
      \<longrightarrow> get_orders w s =
            (Inr (map order_of_row (rows (table_of w (calls s) (orders_file_name (cfg s))))),
             s\<lparr>calls := calls s @ [(ReadTableFromCsv (orders_file_name (cfg s)), None)]\<rparr>)) \<and>
   (raises w (calls s) (ReadTableFromCsv (orders_file_name (cfg s))) = None \<and>
    \<not> set expected_columns \<subseteq> set (columns (table_of w (calls s) (orders_file_name (cfg s)))) \<and>
    rows (table_of w (calls s) (orders_file_name (cfg s))) \<noteq> []
      \<longrightarrow> (\<exists>k \<in> set expected_columns.
             k \<notin> set (columns (table_of w (calls s) (orders_file_name (cfg s)))) \<and>
             get_orders w s =
               (Inl (Exn ''KeyError'' (CHR 0x27 # k @ [CHR 0x27])),
                s\<lparr>calls := calls s @ [(ReadTableFromCsv (orders_file_name (cfg s)), None)]\<rparr>))) \<and>
   (raises w (calls s) (ReadTableFromCsv (orders_file_name (cfg s))) = None \<and>
    rows (table_of w (calls s) (orders_file_name (cfg s))) = []
      \<longrightarrow> get_orders w s =
            (Inr [],
             s\<lparr>calls := calls s @ [(ReadTableFromCsv (orders_file_name (cfg s)), None)]\<rparr>)) \<and>
   (\<forall>e s2. raises w (calls s)
          (HttpDownload (orders_file_url Config_new) (orders_file_name Config_new) True) = None \<and>
      get_orders w (s\<lparr>cfg := Config_new,
               calls := calls s @
               [(HttpDownload (orders_file_url Config_new) (orders_file_name Config_new) True,
                 None)]\<rparr>) = (Inl e, s2)
      \<longrightarrow> order_robots_from_RobotSpareBin w s = (Inl e, s2))"
proof -
  let ?t = "table_of w (calls s) (orders_file_name (cfg s))"
  let ?read = "ReadTableFromCsv (orders_file_name (cfg s))"
  let ?down = "HttpDownload (orders_file_url Config_new) (orders_file_name Config_new) True"
  have A: "new_calls s (snd (download_file w url file_name s)) =
     [(HttpDownload url file_name True, raises w (calls s) (HttpDownload url file_name True))]"
    by (simp add: download_file_def perform_snd new_calls_def)
  have B: "order_robots_from_RobotSpareBin w s =
            (Inl e, s\<lparr>calls := calls s @ [(?down, Some e)], cfg := Config_new\<rparr>)"
    if "raises w (calls s) ?down = Some e" for e
    using that by (simp add: order_robots_after_config after_config_download)
  have C: "get_orders w s = (Inl e, s\<lparr>calls := calls s @ [(?read, Some e)]\<rparr>)"
    if "raises w (calls s) ?read = Some e" for e
    using that by (simp add: get_orders_unfold)
  have D: "get_orders w s = (Inr (map order_of_row (rows ?t)), s\<lparr>calls := calls s @ [(?read, None)]\<rparr>)"
    if "raises w (calls s) ?read = None" "set expected_columns \<subseteq> set (columns ?t)"
    using that by (simp add: get_orders_unfold orders_of_rows_ok)
  have E: "\<exists>k \<in> set expected_columns. k \<notin> set (columns ?t) \<and>
             get_orders w s = (Inl (Exn ''KeyError'' (CHR 0x27 # k @ [CHR 0x27])),
                s\<lparr>calls := calls s @ [(?read, None)]\<rparr>)"
    if r: "raises w (calls s) ?read = None" and m: "\<not> set expected_columns \<subseteq> set (columns ?t)"
      and n: "rows ?t \<noteq> []"
  proof -
    from orders_of_rows_missing[OF m n] obtain k where
      k: "k \<in> set expected_columns" "k \<notin> set (columns ?t)"
         "orders_of_rows ?t (rows ?t) = Inl (key_error k)" by blast
    from r k(3) have "get_orders w s = (Inl (key_error k), s\<lparr>calls := calls s @ [(?read, None)]\<rparr>)"
      by (simp add: get_orders_unfold)
    with k(1,2) show ?thesis unfolding key_error_def by blast
  qed
  have E0: "get_orders w s = (Inr [], s\<lparr>calls := calls s @ [(?read, None)]\<rparr>)"
    if "raises w (calls s) ?read = None" "rows ?t = []"
    using that by (simp add: get_orders_unfold)
  have F: "order_robots_from_RobotSpareBin w s = (Inl e, s2)"
    if "raises w (calls s) ?down = None"
       "get_orders w (s\<lparr>cfg := Config_new, calls := calls s @ [(?down, None)]\<rparr>) = (Inl e, s2)"
    for e s2
    using that by (simp add: order_robots_after_config after_config_download bind_def)
  show ?thesis
    using A B C D E E0 F by blast
qed

text \<open>
  C6 as stated fails: it has ingestion fail whenever an expected column is missing. The columns
  are looked up row by row inside the list comprehension, so a table with no rows raises
  nothing: with the column \<^verbatim>\<open>Address\<close> missing and no rows, \<^verbatim>\<open>get_orders\<close> returns
  the empty list and the run completes.
\<close>

theorem order_ingestion_counterexample:
  "''Address'' \<notin> set (columns (table_of world_header_only (calls state0) ''orders.csv'')) \<and>
   get_orders world_header_only state0 =
     (Inr [], state0\<lparr>calls := [(ReadTableFromCsv ''orders.csv'', None)]\<rparr>) \<and>
   fst (order_robots_from_RobotSpareBin world_header_only state0) = Inr ()"
  by (simp add: get_orders_unfold world_header_only_def state0_def Config_new_def
      order_robots_from_RobotSpareBin_def new_config_def download_file_def
      open_robot_order_website_def close_annoying_modal_def archive_receipts_def with_config_def
      seq_def bind_def perform_def return_def)

lemmas ingest_defs = world_fail_at_def world_no_address_def state0_def Config_new_def two_rows_def
  expected_columns_def order_of_row_def row_of_def timeout_exn_def

text \<open>
  The theorem at a run whose download times out, at a table with the five columns and two
  rows, at a table with one row and no column \<^verbatim>\<open>Address\<close>, and at a table with no rows
  and no column \<^verbatim>\<open>Address\<close>.
\<close>

theorem order_ingestion_witness:
  "raises (world_fail_at [0]) (calls state0)
     (HttpDownload (orders_file_url Config_new) (orders_file_name Config_new) True)
     = Some timeout_exn \<and>
   order_robots_from_RobotSpareBin (world_fail_at [0]) state0 =
     (Inl timeout_exn,
      state0\<lparr>calls := [(HttpDownload ''https://robotsparebinindustries.com/orders.csv''
                           ''orders.csv'' True, Some timeout_exn)]\<rparr>) \<and>
   raises (world_fail_at []) (calls state0) (ReadTableFromCsv (orders_file_name (cfg state0)))
     = None \<and>
   set expected_columns
     \<subseteq> set (columns (table_of (world_fail_at []) (calls state0) (orders_file_name (cfg state0)))) \<and>
   get_orders (world_fail_at []) state0 =
     (Inr [\<lparr>order_number = PyStr ''1'', head = PyStr ''1'', body = PyStr ''2'',
            legs = PyStr ''3'', address = PyStr ''Main St 1''\<rparr>,
           \<lparr>order_number = PyStr ''2'', head = PyStr ''4'', body = PyStr ''5'',
            legs = PyStr ''6'', address = PyStr ''Side St 2''\<rparr>],
      state0\<lparr>calls := [(ReadTableFromCsv ''orders.csv'', None)]\<rparr>) \<and>
   raises world_no_address (calls state0) (ReadTableFromCsv (orders_file_name (cfg state0)))
     = None \<and>
   \<not> set expected_columns
     \<subseteq> set (columns (table_of world_no_address (calls state0) (orders_file_name (cfg state0)))) \<and>
   rows (table_of world_no_address (calls state0) (orders_file_name (cfg state0))) \<noteq> [] \<and>
   (\<exists>k. k \<in> set expected_columns \<and>
      get_orders world_no_address state0 =
        (Inl (Exn ''KeyError'' (CHR 0x27 # k @ [CHR 0x27])),
         state0\<lparr>calls := [(ReadTableFromCsv ''orders.csv'', None)]\<rparr>)) \<and>
   raises world_header_only (calls state0) (ReadTableFromCsv (orders_file_name (cfg state0)))
     = None \<and>
   rows (table_of world_header_only (calls state0) (orders_file_name (cfg state0))) = [] \<and>
   columns (table_of world_header_only (calls state0) (orders_file_name (cfg state0)))
     = [''Order number'', ''Head'', ''Body'', ''Legs''] \<and>
   get_orders world_header_only state0 =
     (Inr [], state0\<lparr>calls := [(ReadTableFromCsv ''orders.csv'', None)]\<rparr>)"
proof -
  have a1: "raises (world_fail_at [0]) (calls state0)
     (HttpDownload (orders_file_url Config_new) (orders_file_name Config_new) True)
     = Some timeout_exn"
    by (simp add: ingest_defs)
  from order_ingestion[of state0 "world_fail_at [0]"] a1
  have "order_robots_from_RobotSpareBin (world_fail_at [0]) state0 =
     (Inl timeout_exn, state0\<lparr>calls := calls state0 @
         [(HttpDownload (orders_file_url Config_new) (orders_file_name Config_new) True,
           Some timeout_exn)], cfg := Config_new\<rparr>)"
    by blast
  then have a2: "order_robots_from_RobotSpareBin (world_fail_at [0]) state0 =
     (Inl timeout_exn,
      state0\<lparr>calls := [(HttpDownload ''https://robotsparebinindustries.com/orders.csv''
                           ''orders.csv'' True, Some timeout_exn)]\<rparr>)"
    by (simp add: state0_def Config_new_def)
  have b1: "raises (world_fail_at []) (calls state0) (ReadTableFromCsv (orders_file_name (cfg state0)))
     = None"
    by (simp add: ingest_defs)
  have b2: "set expected_columns
     \<subseteq> set (columns (table_of (world_fail_at []) (calls state0) (orders_file_name (cfg state0))))"
    by (simp add: ingest_defs)
  from order_ingestion[of state0 "world_fail_at []"] b1 b2
  have "get_orders (world_fail_at []) state0 =
     (Inr (map order_of_row (rows (table_of (world_fail_at []) (calls state0)
              (orders_file_name (cfg state0))))),
      state0\<lparr>calls := calls state0 @ [(ReadTableFromCsv (orders_file_name (cfg state0)), None)]\<rparr>)"
    by blast
  then have b3: "get_orders (world_fail_at []) state0 =
     (Inr [\<lparr>order_number = PyStr ''1'', head = PyStr ''1'', body = PyStr ''2'',
            legs = PyStr ''3'', address = PyStr ''Main St 1''\<rparr>,
           \<lparr>order_number = PyStr ''2'', head = PyStr ''4'', body = PyStr ''5'',
            legs = PyStr ''6'', address = PyStr ''Side St 2''\<rparr>],
      state0\<lparr>calls := [(ReadTableFromCsv ''orders.csv'', None)]\<rparr>)"
    by (simp add: ingest_defs)
  have c1: "raises world_no_address (calls state0) (ReadTableFromCsv (orders_file_name (cfg state0)))
     = None"
    by (simp add: ingest_defs)
  have c2: "\<not> set expected_columns
     \<subseteq> set (columns (table_of world_no_address (calls state0) (orders_file_name (cfg state0))))"
    by (simp add: ingest_defs)
  have c3: "rows (table_of world_no_address (calls state0) (orders_file_name (cfg state0))) \<noteq> []"
    by (simp add: ingest_defs)
  from order_ingestion[of state0 world_no_address] c1 c2 c3
  have "\<exists>k \<in> set expected_columns.
      k \<notin> set (columns (table_of world_no_address (calls state0) (orders_file_name (cfg state0)))) \<and>
      get_orders world_no_address state0 =
        (Inl (Exn ''KeyError'' (CHR 0x27 # k @ [CHR 0x27])),
         state0\<lparr>calls := calls state0 @ [(ReadTableFromCsv (orders_file_name (cfg state0)), None)]\<rparr>)"
    by blast
  then have c4: "\<exists>k. k \<in> set expected_columns \<and>
      get_orders world_no_address state0 =
        (Inl (Exn ''KeyError'' (CHR 0x27 # k @ [CHR 0x27])),
         state0\<lparr>calls := [(ReadTableFromCsv ''orders.csv'', None)]\<rparr>)"
    by (auto simp: state0_def Config_new_def)
  have d1: "raises world_header_only (calls state0)
     (ReadTableFromCsv (orders_file_name (cfg state0))) = None"
    by (simp add: world_header_only_def)
  have d2: "rows (table_of world_header_only (calls state0) (orders_file_name (cfg state0))) = []"
    by (simp add: world_header_only_def)
  have d3: "columns (table_of world_header_only (calls state0) (orders_file_name (cfg state0)))
     = [''Order number'', ''Head'', ''Body'', ''Legs'']"
    by (simp add: world_header_only_def)
  from order_ingestion[of state0 world_header_only] d1 d2
  have "get_orders world_header_only state0 =
     (Inr [], state0\<lparr>calls := calls state0 @
        [(ReadTableFromCsv (orders_file_name (cfg state0)), None)]\<rparr>)"
    by blast
  then have d4: "get_orders world_header_only state0 =
     (Inr [], state0\<lparr>calls := [(ReadTableFromCsv ''orders.csv'', None)]\<rparr>)"
    by (simp add: state0_def Config_new_def)
  show ?thesis using a1 a2 b1 b2 b3 c1 c2 c3 c4 d1 d2 d3 d4 by blast
qed

section \<open>Receipts and screenshots of a completed run\<close>

lemma pdfs_written_append: "pdfs_written (a @ b) = pdfs_written a @ pdfs_written b"
  by (simp add: pdfs_written_def)

lemma screenshots_taken_append: "screenshots_taken (a @ b) = screenshots_taken a @ screenshots_taken b"
  by (simp add: screenshots_taken_def)

lemma files_of_submit_calls:
  "\<forall>x \<in> set new. submit_call (fst x) \<Longrightarrow> pdfs_written new = [] \<and> screenshots_taken new = []"
proof (induction new)
  case Nil
  show ?case by (simp add: pdfs_written_def screenshots_taken_def)
next
  case (Cons x new)
  obtain c r where x: "x = (c, r)" by (cases x)
  from Cons.prems x have "submit_call c" by simp
  then have "pdf_of (c, r) = [] \<and> screenshot_of (c, r) = []"
    by (auto simp: submit_call_def order_click_def receipt_wait_def)
  with Cons x show ?case by (simp add: pdfs_written_def screenshots_taken_def)
qed

lemma files_of_fill_calls:
  "pdfs_written (map (\<lambda>c. (c, None)) (fill_calls order)) = [] \<and>
   screenshots_taken (map (\<lambda>c. (c, None)) (fill_calls order)) = []"
  by (simp add: fill_calls_def pdfs_written_def screenshots_taken_def)

lemma files_of_preview_calls:
  "pdfs_written (map (\<lambda>c. (c, None)) (preview_calls h b l t)) = [] \<and>
   screenshots_taken (map (\<lambda>c. (c, None)) (preview_calls h b l t)) = []"
  by (simp add: preview_calls_def pdfs_written_def screenshots_taken_def)

lemma files_of_capture_calls:
  "pdfs_written (map (\<lambda>c. (c, None)) (capture_calls w config order html)) = [receipt_path w config order] \<and>
   screenshots_taken (map (\<lambda>c. (c, None)) (capture_calls w config order html))
     = [screenshot_path w config order]"
  using files_of_preview_calls[of "head order" "body order" "legs order" default_timeout]
  by (simp add: capture_calls_def pdfs_written_append screenshots_taken_append)
     (simp add: pdfs_written_def screenshots_taken_def)

lemma perform_ok: "perform w c s = (Inr u, s') \<Longrightarrow> s' = s\<lparr>calls := calls s @ [(c, None)]\<rparr>"
  by (auto simp: perform_def split: option.splits)

lemma submit_order_ok:
  "submit_order w s = (Inr u, s') \<Longrightarrow>
   \<exists>new. s' = s\<lparr>calls := calls s @ new\<rparr> \<and> pdfs_written new = [] \<and> screenshots_taken new = []"
proof -
  assume a: "submit_order w s = (Inr u, s')"
  obtain n where "snd (submit_order w s) = after_attempts w n s" using submit_bound by blast
  with a have s': "s' = after_attempts w n s" by simp
  obtain new where "after_attempts w n s = s\<lparr>calls := calls s @ new\<rparr>"
    "\<forall>x \<in> set new. submit_call (fst x)"
    using after_attempts_log[of w n s] by blast
  with s' files_of_submit_calls show ?thesis by blast
qed

lemma store_receipt_as_pdf_ok:
  "store_receipt_as_pdf w order s = (Inr u, s') \<Longrightarrow>
   s' = s\<lparr>calls := calls s @ map (\<lambda>c. (c, None))
          (capture_calls w (cfg s) order (capture_html w s order))\<rparr>"
  by (simp add: store_receipt_as_pdf_all perform_all_ok)

lemma batch_ok:
  "fill_and_submit_sales_form w orders s = (Inr (), s') \<Longrightarrow>
   \<exists>new. s' = s\<lparr>calls := calls s @ new\<rparr> \<and>
     pdfs_written new = map (receipt_path w (cfg s)) orders \<and>
     screenshots_taken new = map (screenshot_path w (cfg s)) orders"
proof (induction orders arbitrary: s)
  case Nil
  then show ?case
    by (intro exI[of _ "[]"]) (simp add: return_def pdfs_written_def screenshots_taken_def)
next
  case (Cons order orders)
  from Cons.prems obtain s1 where f1: "fill_order_form w order s = (Inr (), s1)"
    and r1: "seq (submit_order w)
              (seq (store_receipt_as_pdf w order)
              (seq (go_back_to_order_form w)
              (seq (close_annoying_modal w)
                   (fill_and_submit_sales_form w orders)))) s1 = (Inr (), s')"
    using seq_ok[of "fill_order_form w order" _ s "()" s'] by auto
  from r1 obtain s2 where f2: "submit_order w s1 = (Inr (), s2)"
    and r2: "seq (store_receipt_as_pdf w order)
              (seq (go_back_to_order_form w)
              (seq (close_annoying_modal w)
                   (fill_and_submit_sales_form w orders))) s2 = (Inr (), s')"
    using seq_ok[of "submit_order w" _ s1 "()" s'] by auto
  from r2 obtain s3 where f3: "store_receipt_as_pdf w order s2 = (Inr (), s3)"
    and r3: "seq (go_back_to_order_form w)
              (seq (close_annoying_modal w)
                   (fill_and_submit_sales_form w orders)) s3 = (Inr (), s')"
    using seq_ok[of "store_receipt_as_pdf w order" _ s2 "()" s'] by auto
  from r3 obtain s4 where f4: "go_back_to_order_form w s3 = (Inr (), s4)"
    and r4: "seq (close_annoying_modal w) (fill_and_submit_sales_form w orders) s4 = (Inr (), s')"
    using seq_ok[of "go_back_to_order_form w" _ s3 "()" s'] by auto
  from r4 obtain s5 where f5: "close_annoying_modal w s4 = (Inr (), s5)"
    and r5: "fill_and_submit_sales_form w orders s5 = (Inr (), s')"
    using seq_ok[of "close_annoying_modal w" _ s4 "()" s'] by auto
  let ?n1 = "map (\<lambda>c. (c, None)) (fill_calls order)"
  have e1: "s1 = s\<lparr>calls := calls s @ ?n1\<rparr>" using f1 by (rule fill_ok_state)
  obtain n2 where e2: "s2 = s1\<lparr>calls := calls s1 @ n2\<rparr>"
    and p2: "pdfs_written n2 = []" "screenshots_taken n2 = []"
    using submit_order_ok[OF f2] by blast
  let ?n3 = "map (\<lambda>c. (c, None)) (capture_calls w (cfg s2) order (capture_html w s2 order))"
  have e3: "s3 = s2\<lparr>calls := calls s2 @ ?n3\<rparr>" using f3 by (rule store_receipt_as_pdf_ok)
  let ?n4 = "[(Click ''button:text('Order another robot')'' (Some 1000), None :: exn option)]"
  have e4: "s4 = s3\<lparr>calls := calls s3 @ ?n4\<rparr>"
    using f4 unfolding go_back_to_order_form_def by (rule perform_ok)
  let ?n5 = "[(Click ''button:text('OK')'' None, None :: exn option)]"
  have e5: "s5 = s4\<lparr>calls := calls s4 @ ?n5\<rparr>"
    using f5 unfolding close_annoying_modal_def by (rule perform_ok)
  from Cons.IH[OF r5] obtain n6 where e6: "s' = s5\<lparr>calls := calls s5 @ n6\<rparr>"
    and p6: "pdfs_written n6 = map (receipt_path w (cfg s5)) orders"
            "screenshots_taken n6 = map (screenshot_path w (cfg s5)) orders"
    by blast
  have c2: "cfg s2 = cfg s" using e1 e2 by simp
  have c5: "cfg s5 = cfg s" using e1 e2 e3 e4 e5 by simp
  have tot: "s' = s\<lparr>calls := calls s @ (?n1 @ n2 @ ?n3 @ ?n4 @ ?n5 @ n6)\<rparr>"
    using e1 e2 e3 e4 e5 e6 by simp
  have p45: "pdfs_written ?n4 = [] \<and> screenshots_taken ?n4 = [] \<and>
             pdfs_written ?n5 = [] \<and> screenshots_taken ?n5 = []"
    by (simp add: pdfs_written_def screenshots_taken_def)
  have P: "pdfs_written (?n1 @ n2 @ ?n3 @ ?n4 @ ?n5 @ n6) = map (receipt_path w (cfg s)) (order # orders)"
    using files_of_fill_calls[of order] p2 p45 p6
      files_of_capture_calls[of w "cfg s2" order "capture_html w s2 order"]
    by (simp only: pdfs_written_append c2 c5) simp
  have S: "screenshots_taken (?n1 @ n2 @ ?n3 @ ?n4 @ ?n5 @ n6)
             = map (screenshot_path w (cfg s)) (order # orders)"
    using files_of_fill_calls[of order] p2 p45 p6
      files_of_capture_calls[of w "cfg s2" order "capture_html w s2 order"]
    by (simp only: screenshots_taken_append c2 c5) simp
  show ?case using tot P S by blast
qed

lemma get_orders_ok:
  "get_orders w s = (Inr orders, s') \<Longrightarrow>
   s' = s\<lparr>calls := calls s @ [(ReadTableFromCsv (orders_file_name (cfg s)), None)]\<rparr> \<and>
   orders = map order_of_row (rows (table_of w (calls s) (orders_file_name (cfg s))))"
  by (auto simp: get_orders_unfold split: option.splits sum.splits dest: orders_of_rows_Inr)

lemma run_ok:
  assumes "order_robots_from_RobotSpareBin w s0 = (Inr (), s')"
  shows "pdfs_written (new_calls s0 s')
           = map (receipt_path w Config_new) (map order_of_row (rows (orders_table w s0))) \<and>
         screenshots_taken (new_calls s0 s')
           = map (screenshot_path w Config_new) (map order_of_row (rows (orders_table w s0)))"
proof -
  let ?sc = "s0\<lparr>cfg := Config_new\<rparr>"
  let ?down = "HttpDownload (orders_file_url Config_new) (orders_file_name Config_new) True"
  let ?s1 = "?sc\<lparr>calls := calls ?sc @ [(?down, None)]\<rparr>"
  let ?K = "\<lambda>orders. seq (open_robot_order_website w)
           (seq (close_annoying_modal w)
           (seq (fill_and_submit_sales_form w orders)
                (archive_receipts w)))"
  from assms have ac: "after_config w ?sc = (Inr (), s')"
    by (simp add: order_robots_after_config)
  have dn: "raises w (calls ?sc) ?down = None"
  proof (cases "raises w (calls ?sc) ?down")
    case None then show ?thesis .
  next
    case (Some e)
    with ac show ?thesis by (simp add: after_config_download)
  qed
  with ac have "bind (get_orders w) ?K ?s1 = (Inr (), s')"
    by (simp add: after_config_download)
  then obtain orders s2 where g: "get_orders w ?s1 = (Inr orders, s2)"
    and k: "?K orders s2 = (Inr (), s')"
    using bind_ok[of "get_orders w" ?K ?s1 "()" s'] by blast
  let ?read = "ReadTableFromCsv (orders_file_name Config_new)"
  from get_orders_ok[OF g] have e2: "s2 = ?s1\<lparr>calls := calls ?s1 @ [(?read, None)]\<rparr>"
    and os: "orders = map order_of_row (rows (orders_table w s0))"
    by (simp_all add: orders_table_def)
  from k obtain s3 where f3: "open_robot_order_website w s2 = (Inr (), s3)"
    and r3: "seq (close_annoying_modal w)
              (seq (fill_and_submit_sales_form w orders) (archive_receipts w)) s3 = (Inr (), s')"
    using seq_ok[of "open_robot_order_website w" _ s2 "()" s'] by auto
  from r3 obtain s4 where f4: "close_annoying_modal w s3 = (Inr (), s4)"
    and r4: "seq (fill_and_submit_sales_form w orders) (archive_receipts w) s4 = (Inr (), s')"
    using seq_ok[of "close_annoying_modal w" _ s3 "()" s'] by auto
  from r4 obtain s5 where f5: "fill_and_submit_sales_form w orders s4 = (Inr (), s5)"
    and r5: "archive_receipts w s5 = (Inr (), s')"
    using seq_ok[of "fill_and_submit_sales_form w orders" _ s4 "()" s'] by auto
  let ?goto = "Goto (robot_order_website_url (cfg s2))"
  have e3: "s3 = s2\<lparr>calls := calls s2 @ [(?goto, None)]\<rparr>"
    using f3 unfolding open_robot_order_website_def with_config_def by (rule perform_ok)
  let ?ok = "Click ''button:text('OK')'' None"
  have e4: "s4 = s3\<lparr>calls := calls s3 @ [(?ok, None)]\<rparr>"
    using f4 unfolding close_annoying_modal_def by (rule perform_ok)
  obtain new where e5: "s5 = s4\<lparr>calls := calls s4 @ new\<rparr>"
    and p5: "pdfs_written new = map (receipt_path w (cfg s4)) orders"
            "screenshots_taken new = map (screenshot_path w (cfg s4)) orders"
    using batch_ok[OF f5] by blast
  let ?zip = "ArchiveFolderWithZip
         (path_str (absolute (cwd w) (joinpath (output_dir (cfg s5)) ''receipts'')))
         (path_str (absolute (cwd w) (joinpath (output_dir (cfg s5)) ''receipts.zip'')))"
  have e6: "s' = s5\<lparr>calls := calls s5 @ [(?zip, None)]\<rparr>"
    using r5 unfolding archive_receipts_def with_config_def by (rule perform_ok)
  have c4: "cfg s4 = Config_new" using e2 e3 e4 by simp
  have nc: "new_calls s0 s' =
      [(?down, None)] @ [(?read, None)] @ [(?goto, None)] @ [(?ok, None)] @ new @ [(?zip, None)]"
    using e2 e3 e4 e5 e6 by (simp add: new_calls_def)
  have small: "pdfs_written [(?down, None)] = [] \<and> screenshots_taken [(?down, None)] = [] \<and>
     pdfs_written [(?read, None)] = [] \<and> screenshots_taken [(?read, None)] = [] \<and>
     pdfs_written [(?goto, None)] = [] \<and> screenshots_taken [(?goto, None)] = [] \<and>
     pdfs_written [(?ok, None)] = [] \<and> screenshots_taken [(?ok, None)] = [] \<and>
     pdfs_written [(?zip, None)] = [] \<and> screenshots_taken [(?zip, None)] = []"
    by (simp add: pdfs_written_def screenshots_taken_def)
  have P: "pdfs_written (new_calls s0 s') = map (receipt_path w Config_new) orders"
    using small p5 by (simp only: nc pdfs_written_append c4) simp
  have S: "screenshots_taken (new_calls s0 s') = map (screenshot_path w Config_new) orders"
    using small p5 by (simp only: nc screenshots_taken_append c4) simp
  show ?thesis using P S os by simp
qed

lemma succeeds_return: "succeeds (return x)"
  by (simp add: succeeds_def return_def)

lemma succeeds_perform: "(\<And>l c. raises w l c = None) \<Longrightarrow> succeeds (perform w c)"
  by (simp add: succeeds_def perform_def)

lemma succeeds_bind: "succeeds f \<Longrightarrow> (\<And>x. succeeds (g x)) \<Longrightarrow> succeeds (bind f g)"
  unfolding succeeds_def bind_def
  by (auto split: prod.splits sum.splits) (metis fst_conv sum.distinct(1))

lemma succeeds_seq: "succeeds f \<Longrightarrow> succeeds g \<Longrightarrow> succeeds (seq f g)"
  unfolding seq_def by (rule succeeds_bind)

lemma succeeds_with_config: "(\<And>c. succeeds (f c)) \<Longrightarrow> succeeds (with_config f)"
  unfolding succeeds_def with_config_def by blast

lemma succeeds_try_except: "succeeds f \<Longrightarrow> succeeds (try_except f h)"
  unfolding succeeds_def try_except_def
  by (auto split: prod.splits sum.splits) (metis fst_conv sum.distinct(1))

lemma succeeds_pointwise: "(\<And>s. \<exists>g. succeeds g \<and> f s = g s) \<Longrightarrow> succeeds f"
  unfolding succeeds_def by metis

lemma succeeds_perform_all: "(\<And>l c. raises w l c = None) \<Longrightarrow> succeeds (perform_all w cs)"
  by (induction cs) (simp_all add: succeeds_return succeeds_seq succeeds_perform)

lemma succeeds_batch:
  assumes "\<And>l c. raises w l c = None"
  shows "succeeds (fill_and_submit_sales_form w orders)"
proof (induction orders)
  case Nil
  show ?case by (simp add: succeeds_return)
next
  case (Cons order orders)
  have p: "succeeds (perform w c)" for c using assms by (rule succeeds_perform)
  have a: "succeeds (fill_order_form w order)"
    unfolding fill_order_form_all using assms by (rule succeeds_perform_all)
  have b: "succeeds (submit_order w)"
    unfolding submit_order_def click_order_def wait_for_receipt_def
    by (intro succeeds_try_except succeeds_seq p)
  have c: "succeeds (store_receipt_as_pdf w order)"
    by (rule succeeds_pointwise) (metis store_receipt_as_pdf_all succeeds_perform_all assms)
  have d: "succeeds (go_back_to_order_form w)" "succeeds (close_annoying_modal w)"
    unfolding go_back_to_order_form_def close_annoying_modal_def by (rule p)+
  show ?case
    using a b c d Cons.IH by (simp add: succeeds_seq)
qed

lemma succeeds_get_orders:
  assumes "\<And>l c. raises w l c = None"
    and "\<And>l f. set expected_columns \<subseteq> set (columns (table_of w l f))"
  shows "succeeds (get_orders w)"
  unfolding succeeds_def
  by (simp add: get_orders_unfold assms orders_of_rows_ok)

lemma succeeds_run:
  assumes "\<And>l c. raises w l c = None"
    and "\<And>l f. set expected_columns \<subseteq> set (columns (table_of w l f))"
  shows "fst (order_robots_from_RobotSpareBin w s) = Inr ()"
proof -
  have p: "succeeds (perform w c)" for c using assms(1) by (rule succeeds_perform)
  have "succeeds (after_config w)"
    unfolding after_config_def download_file_def open_robot_order_website_def
      close_annoying_modal_def archive_receipts_def
    by (intro succeeds_seq succeeds_bind succeeds_with_config p succeeds_get_orders
        succeeds_batch assms)
  then show ?thesis
    by (auto simp: order_robots_after_config succeeds_def)
qed

text \<open>The paths of the receipt and the screenshot of a row, part by part.\<close>

lemma split_slash_no_slash: "CHR ''/'' \<notin> set s \<Longrightarrow> split_slash s = [s]"
  by (induction s) auto

lemma parse_parts_name:
  "CHR ''/'' \<notin> set s \<Longrightarrow> s \<noteq> [] \<Longrightarrow> s \<noteq> ''.'' \<Longrightarrow> parse_parts s = [s]"
  by (simp add: parse_parts_def split_slash_no_slash)

lemma receipt_path_new:
  "receipt_path w Config_new (order_of_row r) =
     Path (cwd_anchor w)
       (parse_parts (cwd w) @ [''output'', ''receipts'']
        @ parse_parts (''receipt-'' @ py_str (r ''Order number'') @ ''.pdf''))"
  by (simp add: receipt_path_def Config_new_def order_of_row_def absolute_def is_absolute_def
      joinpath_def Path_of_def anchor_of_def cwd_anchor_def)
     (simp add: parse_parts_def)

lemma screenshot_path_new:
  "screenshot_path w Config_new (order_of_row r) =
     Path (cwd_anchor w)
       (parse_parts (cwd w) @ [''output'', ''screenshots'']
        @ parse_parts (''robot-'' @ py_str (r ''Order number'') @ ''.png''))"
  by (simp add: screenshot_path_def Config_new_def order_of_row_def absolute_def is_absolute_def
      joinpath_def Path_of_def anchor_of_def cwd_anchor_def)
     (simp add: parse_parts_def)

lemma receipt_path_plain:
  "CHR ''/'' \<notin> set (py_str (r ''Order number'')) \<Longrightarrow>
   receipt_path w Config_new (order_of_row r) =
     Path (cwd_anchor w)
       (parse_parts (cwd w)
        @ [''output'', ''receipts'', ''receipt-'' @ py_str (r ''Order number'') @ ''.pdf''])"
  by (simp add: receipt_path_new parse_parts_name)

lemma screenshot_path_plain:
  "CHR ''/'' \<notin> set (py_str (r ''Order number'')) \<Longrightarrow>
   screenshot_path w Config_new (order_of_row r) =
     Path (cwd_anchor w)
       (parse_parts (cwd w)
        @ [''output'', ''screenshots'', ''robot-'' @ py_str (r ''Order number'') @ ''.png''])"
  by (simp add: screenshot_path_new parse_parts_name)

lemma distinct_map_texts:
  assumes inj: "\<And>a b. g a = g b \<Longrightarrow> a = b"
  shows "distinct (map t rs) \<Longrightarrow> distinct (map (\<lambda>r. g (t r)) rs)"
  by (induction rs) (auto dest: inj)

text \<open>
  C5, as amended: for a run that completes, the PDF receipts written and the screenshots taken
  are one per row of the orders table, in the order of the rows: the receipt of a row at
  \<^verbatim>\<open>receipts/receipt-<order number>.pdf\<close> and its screenshot at
  \<^verbatim>\<open>screenshots/robot-<order number>.png\<close> under the directory \<^verbatim>\<open>output\<close> of the working
  directory. When the order numbers of the rows are pairwise different and none contains a
  slash, these are \<open>N\<close> different receipt files and \<open>N\<close> different screenshot files for
  \<open>N\<close> rows.
\<close>

theorem receipts_and_screenshots_per_row:
  assumes "order_robots_from_RobotSpareBin w s0 = (Inr (), s')"
  shows
    "pdfs_written (new_calls s0 s') =
       map (\<lambda>r. receipt_path w Config_new (order_of_row r)) (rows (orders_table w s0)) \<and>
     screenshots_taken (new_calls s0 s') =
       map (\<lambda>r. screenshot_path w Config_new (order_of_row r)) (rows (orders_table w s0)) \<and>
     length (pdfs_written (new_calls s0 s')) = length (rows (orders_table w s0)) \<and>
     length (screenshots_taken (new_calls s0 s')) = length (rows (orders_table w s0)) \<and>
     (\<forall>r. receipt_path w Config_new (order_of_row r) =
            Path (cwd_anchor w)
              (parse_parts (cwd w) @ [''output'', ''receipts'']
               @ parse_parts (''receipt-'' @ py_str (r ''Order number'') @ ''.pdf'')) \<and>
          screenshot_path w Config_new (order_of_row r) =
            Path (cwd_anchor w)
              (parse_parts (cwd w) @ [''output'', ''screenshots'']
               @ parse_parts (''robot-'' @ py_str (r ''Order number'') @ ''.png''))) \<and>
     (distinct (map (\<lambda>r. py_str (r ''Order number'')) (rows (orders_table w s0))) \<and>
      (\<forall>r \<in> set (rows (orders_table w s0)). CHR ''/'' \<notin> set (py_str (r ''Order number'')))
      \<longrightarrow>
        pdfs_written (new_calls s0 s') =
          map (\<lambda>r. Path (cwd_anchor w)
                 (parse_parts (cwd w)
                  @ [''output'', ''receipts'',
                     ''receipt-'' @ py_str (r ''Order number'') @ ''.pdf'']))
            (rows (orders_table w s0)) \<and>
        screenshots_taken (new_calls s0 s') =
          map (\<lambda>r. Path (cwd_anchor w)
                 (parse_parts (cwd w)
                  @ [''output'', ''screenshots'',
                     ''robot-'' @ py_str (r ''Order number'') @ ''.png'']))
            (rows (orders_table w s0)) \<and>
        distinct (pdfs_written (new_calls s0 s')) \<and>
        card (set (pdfs_written (new_calls s0 s'))) = length (rows (orders_table w s0)) \<and>
        distinct (screenshots_taken (new_calls s0 s')) \<and>
        card (set (screenshots_taken (new_calls s0 s'))) = length (rows (orders_table w s0)))"
proof -
  let ?rows = "rows (orders_table w s0)"
  let ?t = "\<lambda>r. py_str (r ''Order number'')"
  let ?P = "pdfs_written (new_calls s0 s')"
  let ?S = "screenshots_taken (new_calls s0 s')"
  have A: "?P = map (\<lambda>r. receipt_path w Config_new (order_of_row r)) ?rows"
    and B: "?S = map (\<lambda>r. screenshot_path w Config_new (order_of_row r)) ?rows"
    using run_ok[OF assms] by (simp_all add: comp_def)
  have L: "length ?P = length ?rows" "length ?S = length ?rows"
    using A B by simp_all
  have F: "\<forall>r. receipt_path w Config_new (order_of_row r) =
            Path (cwd_anchor w)
              (parse_parts (cwd w) @ [''output'', ''receipts'']
               @ parse_parts (''receipt-'' @ py_str (r ''Order number'') @ ''.pdf'')) \<and>
          screenshot_path w Config_new (order_of_row r) =
            Path (cwd_anchor w)
              (parse_parts (cwd w) @ [''output'', ''screenshots'']
               @ parse_parts (''robot-'' @ py_str (r ''Order number'') @ ''.png''))"
    by (simp only: receipt_path_new screenshot_path_new) simp
  have G: "?P = map (\<lambda>r. Path (cwd_anchor w)
                 (parse_parts (cwd w) @ [''output'', ''receipts'', ''receipt-'' @ ?t r @ ''.pdf'']))
            ?rows \<and>
        ?S = map (\<lambda>r. Path (cwd_anchor w)
                 (parse_parts (cwd w) @ [''output'', ''screenshots'', ''robot-'' @ ?t r @ ''.png'']))
            ?rows \<and>
        distinct ?P \<and> card (set ?P) = length ?rows \<and>
        distinct ?S \<and> card (set ?S) = length ?rows"
    if d: "distinct (map ?t ?rows)" and n: "\<forall>r \<in> set ?rows. CHR ''/'' \<notin> set (?t r)"
  proof -
    have P': "?P = map (\<lambda>r. Path (cwd_anchor w)
                 (parse_parts (cwd w) @ [''output'', ''receipts'', ''receipt-'' @ ?t r @ ''.pdf'']))
            ?rows"
      using n by (simp only: A) (simp add: receipt_path_plain)
    have S': "?S = map (\<lambda>r. Path (cwd_anchor w)
                 (parse_parts (cwd w) @ [''output'', ''screenshots'', ''robot-'' @ ?t r @ ''.png'']))
            ?rows"
      using n by (simp only: B) (simp add: screenshot_path_plain)
    have dP: "distinct ?P"
      unfolding P'
      by (rule distinct_map_texts[where g = "\<lambda>x. Path (cwd_anchor w)
                 (parse_parts (cwd w) @ [''output'', ''receipts'', ''receipt-'' @ x @ ''.pdf''])"
            and t = "?t", OF _ d])
         simp
    have dS: "distinct ?S"
      unfolding S'
      by (rule distinct_map_texts[where g = "\<lambda>x. Path (cwd_anchor w)
                 (parse_parts (cwd w) @ [''output'', ''screenshots'', ''robot-'' @ x @ ''.png''])"
            and t = "?t", OF _ d])
         simp
    have cP: "card (set ?P) = length ?rows"
      using distinct_card[OF dP] L by simp
    have cS: "card (set ?S) = length ?rows"
      using distinct_card[OF dS] L by simp
    show ?thesis
      apply (intro conjI)
           apply (fact P')
          apply (fact S')
         apply (fact dP)
        apply (fact cP)
       apply (fact dS)
      apply (fact cS)
      done
  qed
  show ?thesis
    using A B L F G by blast
qed

text \<open>
  The theorem at a run over a table of two rows with the order numbers 1 and 2, in which
  every call returns.
\<close>

theorem receipts_and_screenshots_per_row_witness:
  "order_robots_from_RobotSpareBin (world_fail_at []) state0 =
     (Inr (), snd (order_robots_from_RobotSpareBin (world_fail_at []) state0)) \<and>
   length (rows (orders_table (world_fail_at []) state0)) = 2 \<and>
   distinct (map (\<lambda>r. py_str (r ''Order number''))
     (rows (orders_table (world_fail_at []) state0))) \<and>
   list_all (\<lambda>r. CHR ''/'' \<notin> set (py_str (r ''Order number'')))
     (rows (orders_table (world_fail_at []) state0)) \<and>
   pdfs_written
     (new_calls state0 (snd (order_robots_from_RobotSpareBin (world_fail_at []) state0))) =
     [Path Slash [''robot'', ''output'', ''receipts'', ''receipt-1.pdf''],
      Path Slash [''robot'', ''output'', ''receipts'', ''receipt-2.pdf'']] \<and>
   screenshots_taken
     (new_calls state0 (snd (order_robots_from_RobotSpareBin (world_fail_at []) state0))) =
     [Path Slash [''robot'', ''output'', ''screenshots'', ''robot-1.png''],
      Path Slash [''robot'', ''output'', ''screenshots'', ''robot-2.png'']] \<and>
   card (set (pdfs_written
     (new_calls state0 (snd (order_robots_from_RobotSpareBin (world_fail_at []) state0))))) = 2 \<and>
   card (set (screenshots_taken
     (new_calls state0 (snd (order_robots_from_RobotSpareBin (world_fail_at []) state0))))) = 2"
proof -
  let ?w = "world_fail_at []"
  let ?run = "order_robots_from_RobotSpareBin ?w state0"
  let ?rows = "rows (orders_table ?w state0)"
  have "fst ?run = Inr ()"
    by (rule succeeds_run) (simp_all add: world_fail_at_def two_rows_def expected_columns_def)
  then have h: "?run = (Inr (), snd ?run)"
    by (simp add: prod_eq_iff)
  have r: "?rows = rows two_rows"
    by (simp add: orders_table_def world_fail_at_def)
  have n: "length ?rows = 2"
    by (simp add: r two_rows_def)
  have d: "distinct (map (\<lambda>r. py_str (r ''Order number'')) ?rows)"
    by (simp add: r two_rows_def row_of_def)
  have s: "\<forall>r \<in> set ?rows. CHR ''/'' \<notin> set (py_str (r ''Order number''))"
    by (simp add: r two_rows_def row_of_def)
  then have s': "list_all (\<lambda>r. CHR ''/'' \<notin> set (py_str (r ''Order number''))) ?rows"
    by (simp add: list_all_iff)
  note T = receipts_and_screenshots_per_row[OF h]
  from T d s have
    p0: "pdfs_written (new_calls state0 (snd ?run)) =
          map (\<lambda>r. Path (cwd_anchor ?w)
                 (parse_parts (cwd ?w)
                  @ [''output'', ''receipts'',
                     ''receipt-'' @ py_str (r ''Order number'') @ ''.pdf''])) ?rows"
    and q0: "screenshots_taken (new_calls state0 (snd ?run)) =
          map (\<lambda>r. Path (cwd_anchor ?w)
                 (parse_parts (cwd ?w)
                  @ [''output'', ''screenshots'',
                     ''robot-'' @ py_str (r ''Order number'') @ ''.png''])) ?rows"
    and cp0: "card (set (pdfs_written (new_calls state0 (snd ?run)))) = length ?rows"
    and cq0: "card (set (screenshots_taken (new_calls state0 (snd ?run)))) = length ?rows"
    by blast+
  have p: "pdfs_written (new_calls state0 (snd ?run)) =
     [Path Slash [''robot'', ''output'', ''receipts'', ''receipt-1.pdf''],
      Path Slash [''robot'', ''output'', ''receipts'', ''receipt-2.pdf'']]"
    by (simp only: p0 r)
       (simp add: two_rows_def row_of_def world_fail_at_def cwd_anchor_def anchor_of_def
         parse_parts_def)
  have q: "screenshots_taken (new_calls state0 (snd ?run)) =
     [Path Slash [''robot'', ''output'', ''screenshots'', ''robot-1.png''],
      Path Slash [''robot'', ''output'', ''screenshots'', ''robot-2.png'']]"
    by (simp only: q0 r)
       (simp add: two_rows_def row_of_def world_fail_at_def cwd_anchor_def anchor_of_def
         parse_parts_def)
  have cp: "card (set (pdfs_written (new_calls state0 (snd ?run)))) = 2"
    using cp0 n by simp
  have cq: "card (set (screenshots_taken (new_calls state0 (snd ?run)))) = 2"
    using cq0 n by simp
  show ?thesis
    apply (intro conjI)
           apply (fact h)
          apply (fact n)
         apply (fact d)
        apply (fact s')
       apply (fact p)
      apply (fact q)
     apply (fact cp)
    apply (fact cq)
    done
qed

text \<open>
  C5 as stated fails: it has every run over \<open>N\<close> rows produce \<open>N\<close> receipts and \<open>N\<close>
  screenshots. The files are named by the order number alone, so two rows with the same order
  number are written to the same paths: the run over two such rows completes and leaves one
  receipt file and one screenshot file.
\<close>

theorem receipts_and_screenshots_per_row_counterexample:
  "order_robots_from_RobotSpareBin world_same_number state0 =
     (Inr (), snd (order_robots_from_RobotSpareBin world_same_number state0)) \<and>
   set expected_columns \<subseteq> set (columns (orders_table world_same_number state0)) \<and>
   length (rows (orders_table world_same_number state0)) = 2 \<and>
   pdfs_written
     (new_calls state0 (snd (order_robots_from_RobotSpareBin world_same_number state0))) =
     [Path Slash [''robot'', ''output'', ''receipts'', ''receipt-7.pdf''],
      Path Slash [''robot'', ''output'', ''receipts'', ''receipt-7.pdf'']] \<and>
   card (set (pdfs_written
     (new_calls state0 (snd (order_robots_from_RobotSpareBin world_same_number state0))))) = 1 \<and>
   screenshots_taken
     (new_calls state0 (snd (order_robots_from_RobotSpareBin world_same_number state0))) =
     [Path Slash [''robot'', ''output'', ''screenshots'', ''robot-7.png''],
      Path Slash [''robot'', ''output'', ''screenshots'', ''robot-7.png'']] \<and>
   card (set (screenshots_taken
     (new_calls state0 (snd (order_robots_from_RobotSpareBin world_same_number state0))))) = 1"
proof -
  let ?w = "world_same_number"
  let ?run = "order_robots_from_RobotSpareBin ?w state0"
  have "fst ?run = Inr ()"
    by (rule succeeds_run)
       (simp_all add: world_same_number_def same_number_rows_def expected_columns_def)
  then have h: "?run = (Inr (), snd ?run)"
    by (simp add: prod_eq_iff)
  have c: "set expected_columns \<subseteq> set (columns (orders_table ?w state0))"
    by (simp add: orders_table_def world_same_number_def same_number_rows_def
        expected_columns_def)
  have n: "length (rows (orders_table ?w state0)) = 2"
    by (simp add: orders_table_def world_same_number_def same_number_rows_def)
  have r: "rows (orders_table ?w state0) = rows same_number_rows"
    by (simp add: orders_table_def world_same_number_def)
  have p0: "pdfs_written (new_calls state0 (snd ?run)) =
      map (\<lambda>r. receipt_path ?w Config_new (order_of_row r)) (rows (orders_table ?w state0))"
    and q0: "screenshots_taken (new_calls state0 (snd ?run)) =
      map (\<lambda>r. screenshot_path ?w Config_new (order_of_row r)) (rows (orders_table ?w state0))"
    using run_ok[OF h] by (simp_all add: comp_def)
  have p: "pdfs_written (new_calls state0 (snd ?run)) =
     [Path Slash [''robot'', ''output'', ''receipts'', ''receipt-7.pdf''],
      Path Slash [''robot'', ''output'', ''receipts'', ''receipt-7.pdf'']]"
    by (simp only: p0 r)
       (simp add: receipt_path_new cwd_anchor_def same_number_rows_def row_of_def
         world_same_number_def anchor_of_def parse_parts_def)
  have q: "screenshots_taken (new_calls state0 (snd ?run)) =
     [Path Slash [''robot'', ''output'', ''screenshots'', ''robot-7.png''],
      Path Slash [''robot'', ''output'', ''screenshots'', ''robot-7.png'']]"
    by (simp only: q0 r)
       (simp add: screenshot_path_new cwd_anchor_def same_number_rows_def row_of_def
         world_same_number_def anchor_of_def parse_parts_def)
  have cp: "card (set (pdfs_written (new_calls state0 (snd ?run)))) = 1"
    by (simp only: p) simp
  have cq: "card (set (screenshots_taken (new_calls state0 (snd ?run)))) = 1"
    by (simp only: q) simp
  show ?thesis
    apply (intro conjI)
          apply (fact h)
         apply (fact c)
        apply (fact n)
       apply (fact p)
      apply (fact cp)
     apply (fact q)
    apply (fact cq)
    done
qed

end
